theory Spec2Isabelle
  imports Main
begin

section \<open>Data\<close>

text \<open>
  Go errors are opaque values; \<open>Wrapped\<close> is \<^verbatim>\<open>fmt.Errorf("...: %w", err)\<close>.
\<close>

datatype error = Err string | Wrapped string error

text \<open>\<^verbatim>\<open>proxy.Auth{User, Password}\<close>\<close>

type_synonym auth = "string \<times> string"

text \<open>What \<^verbatim>\<open>createProxyClient\<close> reads of a parsed \<^verbatim>\<open>url.URL\<close>: \<^verbatim>\<open>u.User\<close> (a pointer, nil when the
  address carries no credentials; the password may be unset) and \<^verbatim>\<open>u.Host\<close>.\<close>

record userinfo =
  Username :: string
  Password :: "string option"

record url =
  User :: "userinfo option"
  Host :: string

text \<open>An \<^verbatim>\<open>http.Client\<close> built by \<^verbatim>\<open>createProxyClient\<close>: its transport dials through the SOCKS5 dialer
  made for \<open>dial_host\<close> with \<open>dial_auth\<close>; the timeouts are the constants of config.go.\<close>

record client =
  dial_host :: string
  dial_auth :: "auth option"

text \<open>The constants of config.go and the two lists loaded at start-up.\<close>

record config =
  baseUrl :: string
  numOfThreads :: int
  numOfRequests :: int
  retryCount :: int
  runIndefinitely :: bool
  fireAndForget :: bool
  useProxy :: bool
  parameters :: "string list"
  proxies :: "string list"

text \<open>
  Pure functions of packages outside the repository, taken as parameters:
  \<^verbatim>\<open>url.Parse\<close>, \<^verbatim>\<open>proxy.SOCKS5\<close> (the first argument is the number of the attempt inside the
  retry loop; \<open>None\<close> is a nil error) and \<^verbatim>\<open>http.NewRequestWithContext\<close> (\<open>None\<close> is a nil error).
\<close>

record library =
  url_Parse :: "string \<Rightarrow> error + url"
  proxy_SOCKS5 :: "nat \<Rightarrow> string \<Rightarrow> auth option \<Rightarrow> error option"
  http_NewRequest :: "string \<Rightarrow> error option"

text \<open>\<^verbatim>\<open>RequestSummary\<close> of request.go; durations are in nanoseconds.\<close>

record RequestSummary =
  Parameter :: string
  BytesIn :: int
  Duration :: nat
  ErrorCount :: int

text \<open>One constructor per \<^verbatim>\<open>Printf\<close> call site of the modelled functions.\<close>

datatype logline =
    Failed_to_create_request string error
  | Failed_on_request string error
  | Failed_to_read_response_body string error
  | Failed_to_close_response_body error
  | Successful_request string nat nat
  | Error_in_createProxyClient error
  | Failed_to_create_client_with_proxy string error
  | Failed_to_connect_to_test_URL error
  | Received_non_200_response_code int
  | Failed_to_read_probe_body error

text \<open>
  The process-wide variables: the \<^verbatim>\<open>int32\<close> counters (values in the \<^verbatim>\<open>int32\<close> range, every
  addition wrapped), the two buffered channels (oldest element first), the keys of the
  \<^verbatim>\<open>sync.Map\<close> \<^verbatim>\<open>uniqueIPs\<close> (every stored value is \<^verbatim>\<open>true\<close>), the number of
  \<^verbatim>\<open>bar.Increment()\<close> calls so far, and the lines written to the two logs.
\<close>

record shared =
  successCount :: int
  failureCount :: int
  totalRequests :: int
  successfulProxyConnections :: int
  failedProxyConnections :: int
  totalRequestCount :: int
  requestPerMinute :: int
  proxiesPool :: "string list"
  httpClientPool :: "client list"
  uniqueIPs :: "string set"
  bar :: nat
  request_log :: "logline list"
  proxies_log :: "logline list"

text \<open>The three slices a lane passes to \<^verbatim>\<open>sendRequest\<close> by pointer.\<close>

record buffers =
  summaries :: "RequestSummary list"
  durations :: "nat list"
  sizes :: "int list"

text \<open>
  What the outside world contributes to one step of a goroutine: the draws of the random
  source (\<open>pick\<close> for the list index, \<open>token\<close> for \<^verbatim>\<open>rng\<close>), the time
  \<^verbatim>\<open>time.Since(start)\<close> measures, the result of \<^verbatim>\<open>client.Do\<close> (a transport error, or a response
  whose body yields \<open>body_len\<close> bytes before \<^verbatim>\<open>io.ReadAll\<close> ends, with \<open>read_err\<close> if any, and
  whose \<^verbatim>\<open>Close\<close> returns \<open>close_err\<close>), and the result of the probe of \<^verbatim>\<open>testProxy\<close>.
\<close>

record response =
  body_len :: nat
  read_err :: "error option"
  close_err :: "error option"

text \<open>The answer of the test endpoint to \<^verbatim>\<open>client.Get(testUrl)\<close>: the status code and what
  \<^verbatim>\<open>io.ReadAll\<close> makes of the body.\<close>

record probe_response =
  StatusCode :: int
  Body :: "error + string"

record wire =
  pick :: nat
  token :: nat
  elapsed :: nat
  do_result :: "error + response"
  probe_result :: "error + probe_response"

section \<open>Integers, random draws, formatting\<close>

definition wrap32 :: "int \<Rightarrow> int" where
  "wrap32 x = (x + 2147483648) mod 4294967296 - 2147483648"

text \<open>\<^verbatim>\<open>atomic.AddInt32\<close>: the new value.\<close>

definition AddInt32 :: "int \<Rightarrow> int \<Rightarrow> int" where
  "AddInt32 v d = wrap32 (v + d)"

text \<open>\<^verbatim>\<open>rand.Intn(n)\<close> panics when \<open>n \<le> 0\<close> (\<open>None\<close>) and otherwise returns a number in
  \<open>[0, n)\<close>; the raw draw of the source is a parameter, so every number of the range
  can come out.\<close>

definition Intn :: "nat \<Rightarrow> int \<Rightarrow> int option" where
  "Intn draw n = (if n \<le> 0 then None else Some (int draw mod n))"

fun digits :: "nat \<Rightarrow> string" where
  "digits n = (if n < 10 then [''0123456789'' ! n]
               else digits (n div 10) @ [''0123456789'' ! (n mod 10)])"

declare digits.simps [simp del]

text \<open>\<^verbatim>\<open>fmt.Sprintf("%d", i)\<close>\<close>

definition Sprintf_d :: "int \<Rightarrow> string" where
  "Sprintf_d i = (if i < 0 then CHR ''-'' # digits (nat (- i)) else digits (nat i))"

text \<open>\<^verbatim>\<open>rng(args ...int)\<close> of request.go. Go's \<^verbatim>\<open>int\<close> has 64 bits; the only call passes no
  argument, and the default range is far from its limits.\<close>

definition rng :: "nat \<Rightarrow> int list \<Rightarrow> string option" where
  "rng draw args =
     (let (mn, mx) = (if length args > 1 then (args ! 0, args ! 1) else (0, 1000000))
      in case Intn draw (mx - mn + 1) of
           None \<Rightarrow> None
         | Some r \<Rightarrow> Some (Sprintf_d (r + mn)))"

section \<open>sendRequest\<close>

text \<open>\<^verbatim>\<open>onRequest\<close> of stats.go.\<close>

definition onRequest :: "shared \<Rightarrow> shared" where
  "onRequest s = s\<lparr>totalRequests := AddInt32 (totalRequests s) 1,
                    requestPerMinute := AddInt32 (requestPerMinute s) 1\<rparr>"

text \<open>The first statement of \<^verbatim>\<open>sendRequest\<close>:
  \<^verbatim>\<open>param := parameters[rand.Intn(len(parameters))] + "=" + rng()\<close>.
  \<open>None\<close> is the panic of \<^verbatim>\<open>rand.Intn(0)\<close> on an empty parameter list.\<close>

definition request_param :: "config \<Rightarrow> nat \<Rightarrow> nat \<Rightarrow> string option" where
  "request_param cfg draw1 draw2 =
     (case Intn draw1 (int (length (parameters cfg))) of
        None \<Rightarrow> None
      | Some i \<Rightarrow>
          (case rng draw2 [] of
             None \<Rightarrow> None
           | Some t \<Rightarrow> Some (parameters cfg ! nat i @ ''='' @ t)))"

definition log_Printf :: "logline \<Rightarrow> shared \<Rightarrow> shared" where
  "log_Printf l s = s\<lparr>request_log := request_log s @ [l]\<rparr>"

definition proxiesLogger_Printf :: "logline \<Rightarrow> shared \<Rightarrow> shared" where
  "proxiesLogger_Printf l s = s\<lparr>proxies_log := proxies_log s @ [l]\<rparr>"

definition bar_Increment :: "shared \<Rightarrow> shared" where
  "bar_Increment s = s\<lparr>bar := bar s + 1\<rparr>"

definition add_failureCount :: "shared \<Rightarrow> shared" where
  "add_failureCount s = s\<lparr>failureCount := AddInt32 (failureCount s) 1\<rparr>"

definition add_successCount :: "shared \<Rightarrow> shared" where
  "add_successCount s = s\<lparr>successCount := AddInt32 (successCount s) 1\<rparr>"

text \<open>
  \<^verbatim>\<open>sendRequest(client, bar, &summaries, &durations, &sizes)\<close>, statement by statement.
  The result is the shared state and the lane's three slices after the call; \<open>None\<close> is
  the panic of the first statement. The local \<^verbatim>\<open>summary\<close> is followed only on the path
  that appends it; on the other paths it is dropped when the function returns.
\<close>

definition sendRequest ::
  "config \<Rightarrow> library \<Rightarrow> wire \<Rightarrow> client \<Rightarrow> shared \<times> buffers \<Rightarrow> (shared \<times> buffers) option" where
  "sendRequest cfg lib w c sb =
     (case request_param cfg (pick w) (token w) of
        None \<Rightarrow> None
      | Some param \<Rightarrow>
         (let s1 = onRequest (fst sb);
              b = snd sb;
              summary = \<lparr>Parameter = param, BytesIn = 0, Duration = 0, ErrorCount = 0\<rparr>;
              u = baseUrl cfg @ ''?'' @ param
          in (case http_NewRequest lib u of
               Some err \<Rightarrow>
                 Some (add_failureCount (log_Printf (Failed_to_create_request param err) s1), b)
             | None \<Rightarrow>
                (if fireAndForget cfg then Some (bar_Increment s1, b)
                 else
                  (let duration = elapsed w;
                       summary1 = (summary\<lparr>Duration := duration\<rparr>)
                   in (case do_result w of
                        Inl err \<Rightarrow>
                          Some (bar_Increment (add_failureCount
                                  (log_Printf (Failed_on_request param err) s1)), b)
                      | Inr resp \<Rightarrow>
                         (let n = body_len resp;
                              s2 = (case read_err resp of
                                      Some err \<Rightarrow>
                                        add_failureCount
                                          (log_Printf (Failed_to_read_response_body param err) s1)
                                    | None \<Rightarrow> s1);
                              summary2 = (case read_err resp of
                                      Some err \<Rightarrow> (summary1\<lparr>ErrorCount := ErrorCount summary1 + 1\<rparr>)
                                    | None \<Rightarrow> (summary1\<lparr>BytesIn := int n\<rparr>));
                              b1 = (case read_err resp of
                                      Some err \<Rightarrow> b
                                    | None \<Rightarrow> (b\<lparr>sizes := sizes b @ [int n]\<rparr>));
                              s3 = (case close_err resp of
                                      Some err \<Rightarrow> log_Printf (Failed_to_close_response_body err) s2
                                    | None \<Rightarrow> s2);
                              b2 = (b1\<lparr>durations := durations b1 @ [duration]\<rparr>);
                              b3 = (b2\<lparr>summaries := summaries b2 @ [summary2]\<rparr>);
                              s4 = log_Printf (Successful_request param n duration) s3;
                              s5 = add_successCount s4
                          in Some (bar_Increment s5, b3))))))))"

section \<open>createProxyClient\<close>

text \<open>The retry loop \<^verbatim>\<open>for i := 0; i < retryCount; i++\<close>: the error left in \<^verbatim>\<open>err\<close> when the
  loop ends, starting at attempt \<open>i\<close> with \<open>k\<close> attempts left and \<open>err\<close> as it stands.\<close>

fun dial_loop :: "library \<Rightarrow> string \<Rightarrow> auth option \<Rightarrow> nat \<Rightarrow> nat \<Rightarrow> error option \<Rightarrow> error option" where
  "dial_loop lib h a i 0 err = err"
| "dial_loop lib h a i (Suc k) err =
     (case proxy_SOCKS5 lib i h a of
        None \<Rightarrow> None
      | Some e \<Rightarrow> dial_loop lib h a (Suc i) k (Some e))"

definition with_scheme :: "string \<Rightarrow> string" where
  "with_scheme proxyURL =
     (if take 9 proxyURL \<noteq> ''socks5://'' then ''socks5://'' @ proxyURL else proxyURL)"

definition make_auth :: "url \<Rightarrow> auth option" where
  "make_auth u =
     (case User u of
        None \<Rightarrow> None
      | Some ui \<Rightarrow> Some (Username ui, case Password ui of None \<Rightarrow> [] | Some p \<Rightarrow> p))"

text \<open>
  \<^verbatim>\<open>createProxyClient\<close> up to the construction of the client (lines 28 to 87): either a
  client received from \<^verbatim>\<open>httpClientPool\<close> by the non-blocking \<^verbatim>\<open>select\<close>, or an error, or a
  freshly built client that is still to be sent to the pool.
\<close>

datatype acquired = Pooled client | Failed error | Fresh client

definition createProxyClient_build :: "config \<Rightarrow> library \<Rightarrow> string \<Rightarrow> shared \<Rightarrow> acquired \<times> shared" where
  "createProxyClient_build cfg lib proxyURL s =
     (case httpClientPool s of
        c # rest \<Rightarrow> (Pooled c, s\<lparr>httpClientPool := rest\<rparr>)
      | [] \<Rightarrow>
          (case url_Parse lib (with_scheme proxyURL) of
             Inl err \<Rightarrow>
               (Failed (Wrapped ''Failed to parse proxy URL'' err),
                log_Printf (Error_in_createProxyClient err) s)
           | Inr u \<Rightarrow>
               (case dial_loop lib (Host u) (make_auth u) 0 (nat (retryCount cfg)) None of
                  Some err \<Rightarrow>
                    (Failed (Wrapped ''Failed to create dialer'' err),
                     log_Printf (Error_in_createProxyClient err) s)
                | None \<Rightarrow> (Fresh \<lparr>dial_host = Host u, dial_auth = make_auth u\<rparr>, s))))"

text \<open>The send \<^verbatim>\<open>httpClientPool <- client\<close> on the channel of capacity \<^verbatim>\<open>numOfThreads\<close>:
  \<open>None\<close> while the channel is full.\<close>

definition httpClientPool_send :: "config \<Rightarrow> client \<Rightarrow> shared \<Rightarrow> shared option" where
  "httpClientPool_send cfg c s =
     (if int (length (httpClientPool s)) < numOfThreads cfg
      then Some (s\<lparr>httpClientPool := httpClientPool s @ [c]\<rparr>) else None)"

text \<open>The whole of \<^verbatim>\<open>createProxyClient\<close>, run without interference: the pair the Go function
  returns is \<open>Inl err\<close> or \<open>Inr client\<close>; \<open>None\<close> means the final send cannot proceed.\<close>

definition createProxyClient ::
  "config \<Rightarrow> library \<Rightarrow> string \<Rightarrow> shared \<Rightarrow> ((error + client) \<times> shared) option" where
  "createProxyClient cfg lib proxyURL s =
     (case createProxyClient_build cfg lib proxyURL s of
        (Pooled c, s') \<Rightarrow> Some (Inr c, s')
      | (Failed err, s') \<Rightarrow> Some (Inl err, s')
      | (Fresh c, s') \<Rightarrow>
          (case httpClientPool_send cfg c s' of
             None \<Rightarrow> None
           | Some s'' \<Rightarrow> Some (Inr c, s'')))"

section \<open>testProxy\<close>

text \<open>\<^verbatim>\<open>testProxy(client, proxiesLogger)\<close> of utils.go, on the answer the probe received.\<close>

definition testProxy :: "error + probe_response \<Rightarrow> shared \<Rightarrow> bool \<times> shared" where
  "testProxy got s =
     (case got of
        Inl err \<Rightarrow> (False, proxiesLogger_Printf (Failed_to_connect_to_test_URL err) s)
      | Inr resp \<Rightarrow>
          if StatusCode resp \<noteq> 200
          then (False, proxiesLogger_Printf (Received_non_200_response_code (StatusCode resp)) s)
          else (case Body resp of
                  Inl err \<Rightarrow> (False, proxiesLogger_Printf (Failed_to_read_probe_body err) s)
                | Inr ip \<Rightarrow> (True, s\<lparr>uniqueIPs := insert ip (uniqueIPs s)\<rparr>)))"

section \<open>The goroutines\<close>

text \<open>
  Every goroutine is a small state machine; one step is the code from one access to a
  process-wide variable (an atomic counter, a channel, the \<^verbatim>\<open>sync.Map\<close>) up to the next.
  A step yields \<open>None\<close> when the goroutine cannot move: it is blocked on a channel, it
  has returned, or the statement panics. A call of \<^verbatim>\<open>sendRequest\<close> is one step: it reads
  no process-wide variable, and what it writes (additions to counters, lines appended to
  the log) commutes with the steps of every other goroutine.

  Where the validator \<^verbatim>\<open>worker\<close> stands:
  \<^item> \<open>W_check\<close>: line 155, the load of \<^verbatim>\<open>successfulProxyConnections\<close>;
  \<^item> \<open>W_pick\<close>: lines 162 to 165, the draw of a candidate and its lookup in \<^verbatim>\<open>uniqueIPs\<close>;
  \<^item> \<open>W_create p\<close>: line 167, entering \<^verbatim>\<open>createProxyClient(p)\<close>;
  \<^item> \<open>W_pool p c\<close>: inside \<^verbatim>\<open>createProxyClient\<close>, the send of the fresh client to the pool;
  \<^item> \<open>W_test p c\<close>: line 168, \<^verbatim>\<open>testProxy(c)\<close>;
  \<^item> \<open>W_failed\<close>: line 169; \<open>W_count p\<close>: line 173; \<open>W_store p\<close>: line 174;
  \<^item> \<open>W_send p\<close>: line 179, \<^verbatim>\<open>proxiesPool <- p\<close>;
  \<^item> \<open>W_done\<close>: the function has returned.
\<close>

datatype worker =
    W_check
  | W_pick
  | W_create string
  | W_pool string client
  | W_test string client
  | W_failed
  | W_count string
  | W_store string
  | W_send string
  | W_done

fun worker_step :: "config \<Rightarrow> library \<Rightarrow> wire \<Rightarrow> worker \<Rightarrow> shared \<Rightarrow> (worker \<times> shared) option" where
  "worker_step cfg lib w W_check s =
     Some (if successfulProxyConnections s \<ge> numOfThreads cfg then (W_done, s)
           else if useProxy cfg then (W_pick, s)
           else (W_send [], s))"
| "worker_step cfg lib w W_pick s =
     (case Intn (pick w) (int (length (proxies cfg))) of
        None \<Rightarrow> None
      | Some i \<Rightarrow>
          let proxy = proxies cfg ! nat i
          in Some (if proxy \<in> uniqueIPs s then (W_pick, s) else (W_create proxy, s)))"
| "worker_step cfg lib w (W_create proxy) s =
     (case createProxyClient_build cfg lib proxy s of
        (Pooled c, s') \<Rightarrow> Some (W_test proxy c, s')
      | (Failed err, s') \<Rightarrow> Some (W_failed, s')
      | (Fresh c, s') \<Rightarrow> Some (W_pool proxy c, s'))"
| "worker_step cfg lib w (W_pool proxy c) s =
     (case httpClientPool_send cfg c s of
        None \<Rightarrow> None
      | Some s' \<Rightarrow> Some (W_test proxy c, s'))"
| "worker_step cfg lib w (W_test proxy c) s =
     (case testProxy (probe_result w) s of
        (True, s') \<Rightarrow> Some (W_count proxy, s')
      | (False, s') \<Rightarrow> Some (W_failed, s'))"
| "worker_step cfg lib w W_failed s =
     Some (W_pick, s\<lparr>failedProxyConnections := AddInt32 (failedProxyConnections s) 1\<rparr>)"
| "worker_step cfg lib w (W_count proxy) s =
     Some (W_store proxy,
           s\<lparr>successfulProxyConnections := AddInt32 (successfulProxyConnections s) 1\<rparr>)"
| "worker_step cfg lib w (W_store proxy) s =
     Some (W_send proxy, s\<lparr>uniqueIPs := insert proxy (uniqueIPs s)\<rparr>)"
| "worker_step cfg lib w (W_send proxy) s =
     (if int (length (proxiesPool s)) < numOfThreads cfg
      then Some (W_check, s\<lparr>proxiesPool := proxiesPool s @ [proxy]\<rparr>)
      else None)"
| "worker_step cfg lib w W_done s = None"

text \<open>
  Where a dispatcher lane stands; \<^verbatim>\<open>thread\<close> and \<^verbatim>\<open>threadIndefinitely\<close> are the same text up to
  the end of the batch, and \<^verbatim>\<open>main\<close> starts the one or the other after \<^verbatim>\<open>runIndefinitely\<close>:
  \<^item> \<open>L_take\<close>: line 189, \<^verbatim>\<open>proxy := <-proxiesPool\<close>;
  \<^item> \<open>L_create p\<close>: line 192, entering \<^verbatim>\<open>createProxyClient(p)\<close>;
  \<^item> \<open>L_pool p c\<close>: inside \<^verbatim>\<open>createProxyClient\<close>, the send of the fresh client to the pool;
  \<^item> \<open>L_request p c b k\<close>: line 204, about to call \<^verbatim>\<open>sendRequest\<close> with the slices \<open>b\<close>,
    \<^verbatim>\<open>requestCount\<close> being \<open>k\<close>;
  \<^item> \<open>L_count n\<close>: line 212 of \<^verbatim>\<open>thread\<close>, the atomic addition of \<^verbatim>\<open>requestCount\<close>;
  \<^item> \<open>L_return p\<close>: line 247 of \<^verbatim>\<open>threadIndefinitely\<close>, \<^verbatim>\<open>proxiesPool <- p\<close>;
  \<^item> \<open>L_done\<close>: \<^verbatim>\<open>thread\<close> has returned.
\<close>

datatype lane =
    L_take
  | L_create string
  | L_pool string client
  | L_request string client buffers int
  | L_count int
  | L_return string
  | L_done

definition no_buffers :: buffers where
  "no_buffers = \<lparr>summaries = [], durations = [], sizes = []\<rparr>"

text \<open>\<^verbatim>\<open>int32(numOfThreads*numOfRequests)\<close> converts a constant: Go compiles the program only
  when the product is an \<^verbatim>\<open>int32\<close>, so the conversion never wraps. \<^verbatim>\<open>int32(requestCount)\<close>
  converts a variable and wraps; \<^verbatim>\<open>requestCount\<close> itself is a 64-bit \<^verbatim>\<open>int\<close> that counts the
  requests of one batch.\<close>

fun lane_step :: "config \<Rightarrow> library \<Rightarrow> wire \<Rightarrow> lane \<Rightarrow> shared \<Rightarrow> (lane \<times> shared) option" where
  "lane_step cfg lib w L_take s =
     (case proxiesPool s of
        [] \<Rightarrow> None
      | proxy # rest \<Rightarrow> Some (L_create proxy, s\<lparr>proxiesPool := rest\<rparr>))"
| "lane_step cfg lib w (L_create proxy) s =
     (case createProxyClient_build cfg lib proxy s of
        (Pooled c, s') \<Rightarrow> Some (L_request proxy c no_buffers 0, s')
      | (Failed err, s') \<Rightarrow>
          Some (L_take, proxiesLogger_Printf (Failed_to_create_client_with_proxy proxy err) s')
      | (Fresh c, s') \<Rightarrow> Some (L_pool proxy c, s'))"
| "lane_step cfg lib w (L_pool proxy c) s =
     (case httpClientPool_send cfg c s of
        None \<Rightarrow> None
      | Some s' \<Rightarrow> Some (L_request proxy c no_buffers 0, s'))"
| "lane_step cfg lib w (L_request proxy c b k) s =
     (case sendRequest cfg lib w c (s, b) of
        None \<Rightarrow> None
      | Some (s', b') \<Rightarrow>
          let requestCount = k + 1
          in Some (if requestCount \<ge> numOfRequests cfg
                   then (if runIndefinitely cfg then L_return proxy else L_count requestCount, s')
                   else (L_request proxy c b' requestCount, s')))"
| "lane_step cfg lib w (L_count requestCount) s =
     (let v = AddInt32 (totalRequestCount s) (wrap32 requestCount);
          s' = s\<lparr>totalRequestCount := v\<rparr>
      in Some (if v \<ge> numOfThreads cfg * numOfRequests cfg then (L_done, s') else (L_take, s')))"
| "lane_step cfg lib w (L_return proxy) s =
     (if int (length (proxiesPool s)) < numOfThreads cfg
      then Some (L_take, s\<lparr>proxiesPool := proxiesPool s @ [proxy]\<rparr>)
      else None)"
| "lane_step cfg lib w L_done s = None"

section \<open>The running process\<close>

text \<open>
  The process: the shared variables, the validators and lanes started so far, and whether
  \<^verbatim>\<open>main\<close> is still inside the spawning loop of \<^verbatim>\<open>startThreadsIndefinitely\<close>.
\<close>

record system =
  globals :: shared
  workers :: "worker list"
  lanes :: "lane list"
  spawning :: bool

text \<open>
  A schedule is a list of events: which goroutine moves next and what the outside world
  hands it. \<open>Spawn\<close> is one round of the loop of \<^verbatim>\<open>startThreadsIndefinitely\<close> (lines 272 to
  277); \<open>Minute\<close> is the minute ticker of \<^verbatim>\<open>printStats\<close>, the only write of the reporter.
  A run is a finite schedule executed from the start; the end of the process (\<^verbatim>\<open>main\<close>
  returns when the progress bar is complete) can cut a run short at any later moment and
  is not an event of its own.
\<close>

datatype event = Validator nat wire | Dispatcher nat wire | Spawn | Minute

fun step :: "config \<Rightarrow> library \<Rightarrow> event \<Rightarrow> system \<Rightarrow> system option" where
  "step cfg lib (Validator i w) \<sigma> =
     (if i < length (workers \<sigma>)
      then (case worker_step cfg lib w (workers \<sigma> ! i) (globals \<sigma>) of
              None \<Rightarrow> None
            | Some (p, s) \<Rightarrow> Some (\<sigma>\<lparr>globals := s, workers := (workers \<sigma>)[i := p]\<rparr>))
      else None)"
| "step cfg lib (Dispatcher i w) \<sigma> =
     (if i < length (lanes \<sigma>)
      then (case lane_step cfg lib w (lanes \<sigma> ! i) (globals \<sigma>) of
              None \<Rightarrow> None
            | Some (p, s) \<Rightarrow> Some (\<sigma>\<lparr>globals := s, lanes := (lanes \<sigma>)[i := p]\<rparr>))
      else None)"
| "step cfg lib Spawn \<sigma> =
     (if spawning \<sigma>
      then Some (if successfulProxyConnections (globals \<sigma>) \<ge> numOfThreads cfg
                 then \<sigma>\<lparr>spawning := False\<rparr>
                 else \<sigma>\<lparr>lanes := lanes \<sigma> @ [L_take]\<rparr>)
      else None)"
| "step cfg lib Minute \<sigma> = Some (\<sigma>\<lparr>globals := (globals \<sigma>)\<lparr>requestPerMinute := 0\<rparr>\<rparr>)"

fun run :: "config \<Rightarrow> library \<Rightarrow> event list \<Rightarrow> system \<Rightarrow> system option" where
  "run cfg lib [] \<sigma> = Some \<sigma>"
| "run cfg lib (e # es) \<sigma> =
     (case step cfg lib e \<sigma> of
        None \<Rightarrow> None
      | Some \<sigma>' \<Rightarrow> run cfg lib es \<sigma>')"

definition initial_shared :: shared where
  "initial_shared =
     \<lparr>successCount = 0, failureCount = 0, totalRequests = 0,
      successfulProxyConnections = 0, failedProxyConnections = 0,
      totalRequestCount = 0, requestPerMinute = 0,
      proxiesPool = [], httpClientPool = [], uniqueIPs = {},
      bar = 0, request_log = [], proxies_log = []\<rparr>"

text \<open>
  \<^verbatim>\<open>main\<close> up to the start of the goroutines: fatal (\<open>None\<close>) when no parameter was loaded,
  or no proxy although \<^verbatim>\<open>useProxy\<close> is set; otherwise \<^verbatim>\<open>startThreads\<close> starts \<^verbatim>\<open>numOfThreads\<close>
  validators and as many bounded lanes, and \<^verbatim>\<open>startThreadsIndefinitely\<close> starts the
  validators and enters its spawning loop.
\<close>

definition start :: "config \<Rightarrow> system option" where
  "start cfg =
     (if parameters cfg = [] then None
      else if useProxy cfg \<and> proxies cfg = [] then None
      else Some \<lparr>globals = initial_shared,
                 workers = replicate (nat (numOfThreads cfg)) W_check,
                 lanes = (if runIndefinitely cfg then []
                          else replicate (nat (numOfThreads cfg)) L_take),
                 spawning = runIndefinitely cfg\<rparr>)"

section \<open>Measures used in the statements\<close>

text \<open>The number a string of decimal digits denotes.\<close>

definition digit_value :: "char \<Rightarrow> nat" where
  "digit_value c = of_char c - 48"

definition decimal_value :: "string \<Rightarrow> nat" where
  "decimal_value ds = foldl (\<lambda>a c. 10 * a + digit_value c) 0 ds"

text \<open>Dialer construction fails after \<^verbatim>\<open>retryCount\<close> attempts: there is at least one attempt
  and every attempt returns an error.\<close>

definition dial_fails :: "config \<Rightarrow> library \<Rightarrow> url \<Rightarrow> bool" where
  "dial_fails cfg lib u =
     (0 < retryCount cfg
      \<and> (\<forall>i < nat (retryCount cfg). proxy_SOCKS5 lib i (Host u) (make_auth u) \<noteq> None))"

text \<open>
  Proxies in flight: buffered in \<^verbatim>\<open>proxiesPool\<close>, held by a lane that is using one (from the
  receive up to the end of its batch, or up to the send that returns it), or in transit
  in a validator that has seen \<^verbatim>\<open>testProxy\<close> succeed and has not yet completed its send.
\<close>

fun lane_holds :: "lane \<Rightarrow> int" where
  "lane_holds (L_create p) = 1"
| "lane_holds (L_pool p c) = 1"
| "lane_holds (L_request p c b k) = 1"
| "lane_holds (L_return p) = 1"
| "lane_holds l = 0"

fun worker_holds :: "worker \<Rightarrow> int" where
  "worker_holds (W_count p) = 1"
| "worker_holds (W_store p) = 1"
| "worker_holds (W_send p) = 1"
| "worker_holds v = 0"

definition in_flight :: "system \<Rightarrow> int" where
  "in_flight \<sigma> =
     int (length (proxiesPool (globals \<sigma>)))
     + sum_list (map lane_holds (lanes \<sigma>))
     + sum_list (map worker_holds (workers \<sigma>))"

text \<open>
  A validator is \<open>active\<close> from the moment it has passed the check of line 155 until it
  has added 1 to \<^verbatim>\<open>successfulProxyConnections\<close>; from then until its send completes the
  proxy it carries is \<open>counted\<close>.
\<close>

fun active :: "worker \<Rightarrow> int" where
  "active W_pick = 1"
| "active (W_create p) = 1"
| "active (W_pool p c) = 1"
| "active (W_test p c) = 1"
| "active W_failed = 1"
| "active (W_count p) = 1"
| "active v = 0"

fun counted :: "worker \<Rightarrow> int" where
  "counted (W_store p) = 1"
| "counted (W_send p) = 1"
| "counted v = 0"

text \<open>
  The invariant of a run that uses proxies: the validators present are those started
  at the beginning; the success counter plus the number of active validators stays
  below a fixed bound; and every proxy in the pool, in a lane or carried by a validator
  past line 173 has been counted.
\<close>

definition validation_inv :: "config \<Rightarrow> system \<Rightarrow> bool" where
  "validation_inv cfg \<sigma> =
     (nat (numOfThreads cfg) = length (workers \<sigma>)
      \<and> 0 \<le> successfulProxyConnections (globals \<sigma>)
      \<and> successfulProxyConnections (globals \<sigma>) + sum_list (map active (workers \<sigma>))
          \<le> max 0 (numOfThreads cfg - 1) + int (length (workers \<sigma>))
      \<and> int (length (proxiesPool (globals \<sigma>)))
          + sum_list (map lane_holds (lanes \<sigma>))
          + sum_list (map counted (workers \<sigma>))
          \<le> successfulProxyConnections (globals \<sigma>))"

text \<open>Requests a lane has issued in its current batch and not yet added to
  \<^verbatim>\<open>totalRequestCount\<close>; and whether a lane is still running.\<close>

fun pending :: "lane \<Rightarrow> int" where
  "pending (L_request p c b k) = k"
| "pending (L_count n) = n"
| "pending l = 0"

fun live :: "lane \<Rightarrow> int" where
  "live L_done = 0"
| "live l = 1"

text \<open>
  What holds of every bounded lane: inside a batch \<^verbatim>\<open>requestCount\<close> is below the size of
  a batch, which is \<^verbatim>\<open>numOfRequests\<close> but at least 1 (the loop of lines 203 to 210 tests
  after the call), and the number added at line 212 is the size of a batch.
\<close>

fun lane_ok :: "config \<Rightarrow> lane \<Rightarrow> bool" where
  "lane_ok cfg (L_request p c b k) = (0 \<le> k \<and> k < max 1 (numOfRequests cfg))"
| "lane_ok cfg (L_count n) = (n = max 1 (numOfRequests cfg))"
| "lane_ok cfg (L_return p) = False"
| "lane_ok cfg l = True"

text \<open>
  The invariant of a bounded run: \<^verbatim>\<open>totalRequests\<close> is \<^verbatim>\<open>totalRequestCount\<close> plus what the
  lanes have pending; the counter plus one batch for every running lane stays below a
  fixed bound; and once a lane has returned the counter has reached the budget.
\<close>

definition budget_inv :: "config \<Rightarrow> system \<Rightarrow> bool" where
  "budget_inv cfg \<sigma> =
     (list_all (lane_ok cfg) (lanes \<sigma>)
      \<and> \<not> spawning \<sigma>
      \<and> nat (numOfThreads cfg) = length (lanes \<sigma>)
      \<and> 0 \<le> totalRequestCount (globals \<sigma>)
      \<and> totalRequests (globals \<sigma>)
            = totalRequestCount (globals \<sigma>) + sum_list (map pending (lanes \<sigma>))
      \<and> totalRequestCount (globals \<sigma>)
            + max 1 (numOfRequests cfg) * sum_list (map live (lanes \<sigma>))
          \<le> max 0 (numOfThreads cfg * numOfRequests cfg - 1)
            + max 1 (numOfRequests cfg) * int (length (lanes \<sigma>))
      \<and> (sum_list (map live (lanes \<sigma>)) < int (length (lanes \<sigma>))
           \<longrightarrow> numOfThreads cfg * numOfRequests cfg \<le> totalRequestCount (globals \<sigma>)))"

section \<open>Concrete scenarios\<close>

text \<open>
  An instance of the library parameters, used to evaluate the code on concrete inputs:
  \<^verbatim>\<open>url.Parse\<close> rejects an address with a blank in it and otherwise takes what follows
  \<^verbatim>\<open>socks5://\<close> as the host, \<^verbatim>\<open>proxy.SOCKS5\<close> always succeeds, and \<^verbatim>\<open>http.NewRequestWithContext\<close>
  rejects a URL that contains a tab (a control character).
\<close>

definition example_library :: library where
  "example_library =
     \<lparr>url_Parse = (\<lambda>u. if CHR '' '' \<in> set u
                        then Inl (Err ''invalid character in host name'')
                        else Inr \<lparr>User = None, Host = drop 9 u\<rparr>),
      proxy_SOCKS5 = (\<lambda>i h a. None),
      http_NewRequest = (\<lambda>u. if CHR 0x09 \<in> set u
                              then Some (Err ''invalid control character in URL'')
                              else None)\<rparr>"

text \<open>Two lanes, one request per lane, three candidate proxies.\<close>

definition example_config :: config where
  "example_config =
     \<lparr>baseUrl = ''https://example.org/q'', numOfThreads = 2, numOfRequests = 1, retryCount = 3,
      runIndefinitely = False, fireAndForget = False, useProxy = True,
      parameters = [''height=1''],
      proxies = [''a:1080'', ''b:1080'', ''c:1080'']\<rparr>"

text \<open>The same with only the first two candidates; with a parameter that contains a tab;
  with \<^verbatim>\<open>fireAndForget\<close> set.\<close>

definition two_proxies_config :: config where
  "two_proxies_config = example_config\<lparr>proxies := [''a:1080'', ''b:1080'']\<rparr>"

definition tab_config :: config where
  "tab_config = example_config\<lparr>parameters := [[CHR ''h'', CHR 0x09, CHR ''1'']]\<rparr>"

definition forget_config :: config where
  "forget_config = example_config\<lparr>fireAndForget := True\<rparr>"

definition ok_response :: response where
  "ok_response = \<lparr>body_len = 5, read_err = None, close_err = None\<rparr>"

text \<open>A friendly outside world: every probe is answered with status 200 and the same
  public address, every request with a body of five bytes.\<close>

definition calm :: wire where
  "calm = \<lparr>pick = 0, token = 42, elapsed = 1000, do_result = Inr ok_response,
            probe_result = Inr \<lparr>StatusCode = 200, Body = Inr ''203.0.113.7''\<rparr>\<rparr>"

text \<open>The same, but \<^verbatim>\<open>client.Do\<close> returns a transport error.\<close>

definition broken :: wire where
  "broken = calm\<lparr>do_result := Inl (Err ''context deadline exceeded'')\<rparr>"

definition some_client :: client where
  "some_client = \<lparr>dial_host = ''a:1080'', dial_auth = None\<rparr>"

text \<open>The shared variables at start-up, but with one client in \<^verbatim>\<open>httpClientPool\<close>.\<close>

definition one_pooled_client :: shared where
  "one_pooled_client = initial_shared\<lparr>httpClientPool := [some_client]\<rparr>"

text \<open>Validator \<open>i\<close> moves, drawing index \<open>k\<close> if it draws; lane \<open>i\<close> moves.\<close>

definition V :: "nat \<Rightarrow> nat \<Rightarrow> event" where
  "V i k = Validator i (calm\<lparr>pick := k\<rparr>)"

definition D :: "nat \<Rightarrow> event" where
  "D i = Dispatcher i calm"

text \<open>The process of \<open>example_config\<close> and of \<open>two_proxies_config\<close> when the goroutines
  have been started.\<close>

definition example_start :: system where
  "example_start =
     \<lparr>globals = initial_shared, workers = [W_check, W_check], lanes = [L_take, L_take],
      spawning = False\<rparr>"

text \<open>
  One validator alone accepts \<^verbatim>\<open>a:1080\<close> (check, draw, build client, pool the client, probe,
  count, store, send); lane 0 takes the proxy and the pooled client; the validator then
  accepts \<^verbatim>\<open>b:1080\<close> through a client of its own, the probe returning the same public
  address as before.
\<close>

definition same_address_schedule :: "event list" where
  "same_address_schedule =
     [V 0 0, V 0 0, V 0 0, V 0 0, V 0 0, V 0 0, V 0 0, V 0 0,
      D 0, D 0,
      V 0 0, V 0 1, V 0 1, V 0 1, V 0 1, V 0 1, V 0 1, V 0 1]"

definition same_address_state :: system where
  "same_address_state =
     \<lparr>globals =
        \<lparr>successCount = 0, failureCount = 0, totalRequests = 0,
         successfulProxyConnections = 2, failedProxyConnections = 0,
         totalRequestCount = 0, requestPerMinute = 0,
         proxiesPool = [''b:1080''],
         httpClientPool = [\<lparr>dial_host = ''b:1080'', dial_auth = None\<rparr>],
         uniqueIPs = {''b:1080'', ''a:1080'', ''203.0.113.7''},
         bar = 0, request_log = [], proxies_log = []\<rparr>,
      workers = [W_check, W_check],
      lanes = [L_request ''a:1080'' \<lparr>dial_host = ''a:1080'', dial_auth = None\<rparr> no_buffers 0,
               L_take],
      spawning = False\<rparr>"

text \<open>
  Both validators pass the check of line 155 while the counter is below 2; validator 0
  then accepts \<^verbatim>\<open>a:1080\<close> and \<^verbatim>\<open>b:1080\<close> and sends both; validator 1 accepts \<^verbatim>\<open>c:1080\<close> and
  reaches its send.
\<close>

definition overrun_schedule :: "event list" where
  "overrun_schedule =
     [V 1 0,
      V 0 0, V 0 0, V 0 0, V 0 0, V 0 0, V 0 0, V 0 0, V 0 0,
      V 0 0, V 0 1, V 0 1, V 0 1, V 0 1, V 0 1, V 0 1,
      V 1 2, V 1 2, V 1 2, V 1 2, V 1 2, V 1 2]"

definition overrun_state :: system where
  "overrun_state =
     \<lparr>globals =
        \<lparr>successCount = 0, failureCount = 0, totalRequests = 0,
         successfulProxyConnections = 3, failedProxyConnections = 0,
         totalRequestCount = 0, requestPerMinute = 0,
         proxiesPool = [''a:1080'', ''b:1080''],
         httpClientPool = [\<lparr>dial_host = ''c:1080'', dial_auth = None\<rparr>],
         uniqueIPs = {''c:1080'', ''b:1080'', ''a:1080'', ''203.0.113.7''},
         bar = 0, request_log = [], proxies_log = []\<rparr>,
      workers = [W_check, W_send ''c:1080''],
      lanes = [L_take, L_take],
      spawning = False\<rparr>"

text \<open>
  The continuation: validator 0 returns; lane 0 takes \<^verbatim>\<open>a:1080\<close>; validator 1 completes its
  send and returns; lane 0 sends its batch, adds it (1 of 2) and takes \<^verbatim>\<open>b:1080\<close>; lane 1
  takes \<^verbatim>\<open>c:1080\<close>; both send their batch and add it.
\<close>

definition completion_schedule :: "event list" where
  "completion_schedule =
     [V 0 0,
      D 0, D 0,
      V 1 0, V 1 0,
      D 0, D 0,
      D 0, D 0, D 0,
      D 1, D 1,
      D 0, D 1,
      D 0, D 1]"

definition completed_state :: system where
  "completed_state =
     \<lparr>globals =
        \<lparr>successCount = 3, failureCount = 0, totalRequests = 3,
         successfulProxyConnections = 3, failedProxyConnections = 0,
         totalRequestCount = 3, requestPerMinute = 3,
         proxiesPool = [], httpClientPool = [],
         uniqueIPs = {''c:1080'', ''b:1080'', ''a:1080'', ''203.0.113.7''},
         bar = 3,
         request_log =
           [Successful_request ''height=1=42'' 5 1000,
            Successful_request ''height=1=42'' 5 1000,
            Successful_request ''height=1=42'' 5 1000],
         proxies_log = []\<rparr>,
      workers = [W_done, W_done],
      lanes = [L_done, L_done],
      spawning = False\<rparr>"

text \<open>
  With two candidates only: both validators pass the check; validator 0 accepts both
  candidates, so the counter reaches 2. Validator 1 then draws three times.
\<close>

definition exhausting_schedule :: "event list" where
  "exhausting_schedule =
     [V 1 0,
      V 0 0, V 0 0, V 0 0, V 0 0, V 0 0, V 0 0, V 0 0, V 0 0,
      V 0 0, V 0 1, V 0 1, V 0 1, V 0 1, V 0 1, V 0 1]"

definition exhausted_state :: system where
  "exhausted_state =
     \<lparr>globals =
        \<lparr>successCount = 0, failureCount = 0, totalRequests = 0,
         successfulProxyConnections = 2, failedProxyConnections = 0,
         totalRequestCount = 0, requestPerMinute = 0,
         proxiesPool = [''a:1080'', ''b:1080''], httpClientPool = [],
         uniqueIPs = {''b:1080'', ''a:1080'', ''203.0.113.7''},
         bar = 0, request_log = [], proxies_log = []\<rparr>,
      workers = [W_check, W_pick],
      lanes = [L_take, L_take],
      spawning = False\<rparr>"

definition spinning_schedule :: "event list" where
  "spinning_schedule = [V 1 0, V 1 1, V 1 0]"

section \<open>Evaluation\<close>

lemmas scenario_defs = example_config_def two_proxies_config_def tab_config_def
  forget_config_def example_library_def calm_def broken_def ok_response_def some_client_def
  one_pooled_client_def V_def D_def example_start_def

lemmas code_defs = start_def initial_shared_def Intn_def createProxyClient_def
  createProxyClient_build_def httpClientPool_send_def testProxy_def AddInt32_def wrap32_def
  with_scheme_def make_auth_def log_Printf_def proxiesLogger_Printf_def sendRequest_def
  request_param_def rng_def Sprintf_d_def onRequest_def bar_Increment_def
  add_failureCount_def add_successCount_def no_buffers_def Let_def digits.simps
  numeral_2_eq_2 numeral_3_eq_3

lemma run_append: "run cfg lib (es @ fs) \<sigma> = Option.bind (run cfg lib es \<sigma>) (run cfg lib fs)"
  by (induction es arbitrary: \<sigma>) (auto split: option.splits)

lemma wrap32_id: "- 2147483648 \<le> x \<Longrightarrow> x < 2147483648 \<Longrightarrow> wrap32 x = x"
  by (simp add: wrap32_def)

lemma sum_list_map_update:
  fixes f :: "'a \<Rightarrow> int"
  shows "i < length xs \<Longrightarrow> sum_list (map f (xs[i := y])) = sum_list (map f xs) - f (xs ! i) + f y"
proof (induction xs arbitrary: i)
  case Nil
  then show ?case by simp
next
  case (Cons x xs)
  then show ?case by (cases i) simp_all
qed

lemma list_all_update: "list_all P xs \<Longrightarrow> P y \<Longrightarrow> list_all P (xs[i := y])"
proof (induction xs arbitrary: i)
  case Nil
  then show ?case by simp
next
  case (Cons x xs)
  then show ?case by (cases i) simp_all
qed

lemma list_all_nth: "list_all P xs \<Longrightarrow> i < length xs \<Longrightarrow> P (xs ! i)"
  by (simp add: list_all_length)

section \<open>The query string\<close>

lemma digit_char: "k < 10 \<Longrightarrow> digit_value (''0123456789'' ! k) = k"
proof -
  assume "k < 10"
  then have "k = 0 \<or> k = 1 \<or> k = 2 \<or> k = 3 \<or> k = 4 \<or> k = 5 \<or> k = 6 \<or> k = 7 \<or> k = 8 \<or> k = 9"
    by arith
  then show ?thesis by (elim disjE) (simp_all add: digit_value_def)
qed

lemma digit_char_in: "k < 10 \<Longrightarrow> ''0123456789'' ! k \<in> set ''0123456789''"
  by (rule nth_mem) simp

lemma decimal_value_snoc: "decimal_value (ds @ [c]) = 10 * decimal_value ds + digit_value c"
  by (simp add: decimal_value_def)

lemma decimal_value_digits: "decimal_value (digits n) = n"
proof (induction n rule: digits.induct)
  case (1 n)
  show ?case
  proof (cases "n < 10")
    case True
    then show ?thesis
      by (subst digits.simps) (simp add: decimal_value_def digit_char)
  next
    case False
    then have "decimal_value (digits (n div 10)) = n div 10" using 1 by simp
    moreover have "n mod 10 < 10" by simp
    ultimately show ?thesis using False
      by (subst digits.simps) (simp add: decimal_value_snoc digit_char)
  qed
qed

lemma digits_are_digits: "set (digits n) \<subseteq> set ''0123456789''"
proof (induction n rule: digits.induct)
  case (1 n)
  show ?case
  proof (cases "n < 10")
    case True
    then show ?thesis using digit_char_in [of n]
      by (subst digits.simps) simp
  next
    case False
    then have "set (digits (n div 10)) \<subseteq> set ''0123456789''" using 1 by simp
    moreover have "''0123456789'' ! (n mod 10) \<in> set ''0123456789''"
      by (rule digit_char_in) simp
    ultimately show ?thesis using False
      by (subst digits.simps) simp
  qed
qed

lemma digits_nonempty: "digits n \<noteq> []"
  by (subst digits.simps) simp

text \<open>
  C8. With the parameter list \<^verbatim>\<open>["height=1"]\<close>, whatever the random source draws, the
  query string \<^verbatim>\<open>sendRequest\<close> builds is \<^verbatim>\<open>height=1=\<close> followed by what \<^verbatim>\<open>%d\<close> prints for a
  number \<open>n\<close> between 0 and 1000000: a non-empty string of decimal digits whose value is
  \<open>n\<close>.
\<close>

theorem query_string_height:
  assumes "parameters cfg = [''height=1'']"
  shows "\<exists>n ds. request_param cfg draw1 draw2 = Some (''height=1='' @ ds)
            \<and> ds = Sprintf_d (int n) \<and> n \<le> 1000000
            \<and> ds \<noteq> [] \<and> set ds \<subseteq> set ''0123456789'' \<and> decimal_value ds = n"
proof -
  let ?n = "draw2 mod 1000001"
  have "int draw2 mod 1000001 = int ?n" by (simp add: zmod_int)
  then have "request_param cfg draw1 draw2 = Some (''height=1='' @ Sprintf_d (int ?n))"
    using assms by (simp add: request_param_def rng_def Intn_def)
  moreover have "Sprintf_d (int ?n) = digits ?n" by (simp add: Sprintf_d_def)
  moreover have "?n \<le> 1000000" by simp
  ultimately show ?thesis
    using digits_nonempty [of ?n] digits_are_digits [of ?n] decimal_value_digits [of ?n]
    by (intro exI [of _ ?n] exI [of _ "digits ?n"]) simp
qed

theorem query_string_height_witness:
  "parameters example_config = [''height=1'']
   \<and> request_param example_config 0 1000043 = Some ''height=1=42''"
proof -
  have p: "parameters example_config = [''height=1'']" by (simp add: example_config_def)
  from query_string_height [OF p, of 0 1000043]
  show ?thesis using p
    by (simp add: request_param_def rng_def Intn_def Sprintf_d_def digits.simps)
qed

section \<open>Properties of sendRequest\<close>

lemma sendRequest_build_failure:
  "request_param cfg (pick w) (token w) = Some p \<Longrightarrow>
   http_NewRequest lib (baseUrl cfg @ ''?'' @ p) = Some e \<Longrightarrow>
   sendRequest cfg lib w c (s, b) =
     Some (add_failureCount (log_Printf (Failed_to_create_request p e) (onRequest s)), b)"
  by (simp add: sendRequest_def)

lemma sendRequest_fireAndForget:
  "fireAndForget cfg \<Longrightarrow> request_param cfg (pick w) (token w) = Some p \<Longrightarrow>
   http_NewRequest lib (baseUrl cfg @ ''?'' @ p) = None \<Longrightarrow>
   sendRequest cfg lib w c (s, b) = Some (bar_Increment (onRequest s), b)"
  by (simp add: sendRequest_def)

lemma sendRequest_frame:
  "sendRequest cfg lib w c (s, b) = Some (s', b') \<Longrightarrow>
   totalRequests s' = AddInt32 (totalRequests s) 1 \<and> totalRequestCount s' = totalRequestCount s
   \<and> proxiesPool s' = proxiesPool s
   \<and> successfulProxyConnections s' = successfulProxyConnections s"
  by (auto simp: sendRequest_def onRequest_def log_Printf_def bar_Increment_def
        add_failureCount_def add_successCount_def Let_def
      split: option.splits sum.splits if_splits)

text \<open>How \<^verbatim>\<open>sendRequest\<close> moves the progress counter: by one on every path but the return of
  line 302.\<close>

lemma sendRequest_progress:
  assumes "request_param cfg (pick w) (token w) = Some p"
    and "sendRequest cfg lib w c (s, b) = Some (s', b')"
  shows "bar s' = (case http_NewRequest lib (baseUrl cfg @ ''?'' @ p) of
                     Some e \<Rightarrow> bar s
                   | None \<Rightarrow> bar s + 1)"
  using assms
  by (auto simp: sendRequest_def onRequest_def log_Printf_def bar_Increment_def
        add_failureCount_def add_successCount_def Let_def
      split: option.splits sum.splits if_splits)

text \<open>
  C3. The progress counter is not incremented on every attempt: with a parameter that
  contains a tab, \<^verbatim>\<open>http.NewRequestWithContext\<close> rejects the URL and \<^verbatim>\<open>sendRequest\<close> returns at
  line 302 with the failure counted and the bar where it was, while the sibling path of
  a transport failure (lines 315 to 320) increments the bar.
\<close>

theorem build_failure_skips_progress:
  "map_option (bar \<circ> fst)
     (sendRequest tab_config example_library calm some_client (initial_shared, no_buffers))
     = Some (bar initial_shared)
   \<and> map_option (failureCount \<circ> fst)
     (sendRequest tab_config example_library calm some_client (initial_shared, no_buffers))
     = Some 1
   \<and> map_option (bar \<circ> fst)
     (sendRequest example_config example_library broken some_client (initial_shared, no_buffers))
     = Some (bar initial_shared + 1)"
  by (simp add: scenario_defs code_defs)

text \<open>
  C7. While \<^verbatim>\<open>fireAndForget\<close> is set, a request that was built and handed to \<^verbatim>\<open>client.Do\<close>
  leaves the lane's summaries, durations and sizes as they were, and changes nothing of
  the shared state but the two request counters of \<^verbatim>\<open>onRequest\<close> and the progress counter,
  which advances by one.
\<close>

theorem fireAndForget_records_nothing:
  assumes "fireAndForget cfg"
    and "request_param cfg (pick w) (token w) = Some p"
    and "http_NewRequest lib (baseUrl cfg @ ''?'' @ p) = None"
  shows "sendRequest cfg lib w c (s, b) = Some (bar_Increment (onRequest s), b)
       \<and> bar (bar_Increment (onRequest s)) = bar s + 1"
  using sendRequest_fireAndForget [OF assms, of c s b]
  by (simp add: bar_Increment_def onRequest_def)

theorem fireAndForget_records_nothing_witness:
  "fireAndForget forget_config
   \<and> request_param forget_config (pick calm) (token calm) = Some ''height=1=42''
   \<and> http_NewRequest example_library (baseUrl forget_config @ ''?'' @ ''height=1=42'') = None
   \<and> sendRequest forget_config example_library calm some_client (initial_shared, no_buffers)
       = Some (initial_shared\<lparr>totalRequests := 1, requestPerMinute := 1, bar := 1\<rparr>, no_buffers)"
proof -
  have 1: "fireAndForget forget_config" by (simp add: scenario_defs)
  have 2: "request_param forget_config (pick calm) (token calm) = Some ''height=1=42''"
    by (simp add: scenario_defs code_defs)
  have 3: "http_NewRequest example_library (baseUrl forget_config @ ''?'' @ ''height=1=42'') = None"
    by (simp add: scenario_defs)
  from fireAndForget_records_nothing [OF 1 2 3, of some_client initial_shared no_buffers]
  show ?thesis using 1 2 3
    by (simp add: bar_Increment_def onRequest_def AddInt32_def wrap32_def initial_shared_def)
qed

text \<open>
  C10. While \<^verbatim>\<open>fireAndForget\<close> is set, a transport error returned by \<^verbatim>\<open>client.Do\<close> is never
  looked at: the failure counter and both logs stay as they were, and the progress
  counter advances by one.
\<close>

theorem transport_error_unseen:
  assumes "fireAndForget cfg"
    and "request_param cfg (pick w) (token w) = Some p"
    and "http_NewRequest lib (baseUrl cfg @ ''?'' @ p) = None"
    and "do_result w = Inl e"
  shows "\<exists>s'. sendRequest cfg lib w c (s, b) = Some (s', b)
           \<and> failureCount s' = failureCount s
           \<and> request_log s' = request_log s \<and> proxies_log s' = proxies_log s
           \<and> bar s' = bar s + 1"
  using sendRequest_fireAndForget [OF assms(1-3), of c s b]
  by (simp add: bar_Increment_def onRequest_def)

theorem transport_error_unseen_witness:
  "fireAndForget forget_config
   \<and> request_param forget_config (pick broken) (token broken) = Some ''height=1=42''
   \<and> http_NewRequest example_library (baseUrl forget_config @ ''?'' @ ''height=1=42'') = None
   \<and> do_result broken = Inl (Err ''context deadline exceeded'')
   \<and> map_option (failureCount \<circ> fst)
       (sendRequest forget_config example_library broken some_client (initial_shared, no_buffers))
       = Some 0
   \<and> map_option (request_log \<circ> fst)
       (sendRequest forget_config example_library broken some_client (initial_shared, no_buffers))
       = Some []"
proof -
  have 1: "fireAndForget forget_config" by (simp add: scenario_defs)
  have 2: "request_param forget_config (pick broken) (token broken) = Some ''height=1=42''"
    by (simp add: scenario_defs code_defs)
  have 3: "http_NewRequest example_library (baseUrl forget_config @ ''?'' @ ''height=1=42'') = None"
    by (simp add: scenario_defs)
  have 4: "do_result broken = Inl (Err ''context deadline exceeded'')"
    by (simp add: scenario_defs)
  from transport_error_unseen [OF 1 2 3 4, of some_client initial_shared no_buffers]
  show ?thesis using 1 2 3 4
    by (auto simp: initial_shared_def)
qed

section \<open>Properties of createProxyClient\<close>

lemma createProxyClient_build_frame:
  "createProxyClient_build cfg lib p s = (a, s') \<Longrightarrow>
   totalRequests s' = totalRequests s \<and> totalRequestCount s' = totalRequestCount s
   \<and> proxiesPool s' = proxiesPool s
   \<and> successfulProxyConnections s' = successfulProxyConnections s"
  by (auto simp: createProxyClient_build_def log_Printf_def
      split: list.splits sum.splits option.splits)

lemma httpClientPool_send_frame:
  "httpClientPool_send cfg c s = Some s' \<Longrightarrow>
   totalRequests s' = totalRequests s \<and> totalRequestCount s' = totalRequestCount s
   \<and> proxiesPool s' = proxiesPool s
   \<and> successfulProxyConnections s' = successfulProxyConnections s"
  by (auto simp: httpClientPool_send_def split: if_splits)

lemma testProxy_frame:
  "testProxy r s = (ok, s') \<Longrightarrow>
   totalRequests s' = totalRequests s \<and> totalRequestCount s' = totalRequestCount s
   \<and> proxiesPool s' = proxiesPool s
   \<and> successfulProxyConnections s' = successfulProxyConnections s"
  by (auto simp: testProxy_def proxiesLogger_Printf_def split: sum.splits if_splits)

text \<open>The retry loop leaves an error exactly when every attempt fails (and, with no
  attempt at all, when there was an error before).\<close>

lemma dial_loop_fails:
  "dial_loop lib h a i k err \<noteq> None \<longleftrightarrow>
     (\<forall>j<k. proxy_SOCKS5 lib (i + j) h a \<noteq> None) \<and> (k = 0 \<longrightarrow> err \<noteq> None)"
proof (induction k arbitrary: i err)
  case 0
  then show ?case by simp
next
  case (Suc k)
  show ?case
  proof (cases "proxy_SOCKS5 lib i h a")
    case None
    then show ?thesis by (auto intro: exI [of _ 0])
  next
    case (Some e)
    have "(\<forall>j<Suc k. proxy_SOCKS5 lib (i + j) h a \<noteq> None)
            \<longleftrightarrow> (\<forall>j<k. proxy_SOCKS5 lib (Suc i + j) h a \<noteq> None)"
      using Some by (auto simp: less_Suc_eq_0_disj)
    then show ?thesis using Some Suc [of "Suc i" "Some e"] by auto
  qed
qed

lemma build_failed_iff:
  "(\<exists>e s'. createProxyClient_build cfg lib proxyURL s = (Failed e, s')) \<longleftrightarrow>
     httpClientPool s = [] \<and>
     (case url_Parse lib (with_scheme proxyURL) of
        Inl err \<Rightarrow> True
      | Inr u \<Rightarrow> dial_fails cfg lib u)"
proof (cases "httpClientPool s")
  case (Cons c rest)
  then show ?thesis by (simp add: createProxyClient_build_def)
next
  case Nil
  show ?thesis
  proof (cases "url_Parse lib (with_scheme proxyURL)")
    case (Inl err)
    then show ?thesis using Nil by (simp add: createProxyClient_build_def)
  next
    case (Inr u)
    have "dial_loop lib (Host u) (make_auth u) 0 (nat (retryCount cfg)) None \<noteq> None
            \<longleftrightarrow> dial_fails cfg lib u"
      unfolding dial_loop_fails dial_fails_def by auto
    then show ?thesis using Nil Inr
      by (auto simp: createProxyClient_build_def split: option.splits)
  qed
qed

lemma createProxyClient_error_iff:
  "createProxyClient cfg lib proxyURL s = Some (Inl e, s') \<longleftrightarrow>
   createProxyClient_build cfg lib proxyURL s = (Failed e, s')"
  by (auto simp: createProxyClient_def split: prod.splits acquired.splits option.splits)

text \<open>
  C9. Whenever \<^verbatim>\<open>httpClientPool\<close> is not empty, \<^verbatim>\<open>createProxyClient\<close> returns the client at the
  head of the pool and a nil error, whatever the proxy address is and whatever
  \<^verbatim>\<open>url.Parse\<close> would say of it; nothing changes but the pool, which loses that client.
\<close>

theorem pooled_client_returned_unparsed:
  assumes "httpClientPool s \<noteq> []"
  shows "createProxyClient cfg lib proxyURL s =
           Some (Inr (hd (httpClientPool s)), s\<lparr>httpClientPool := tl (httpClientPool s)\<rparr>)"
  using assms
  by (cases "httpClientPool s") (simp_all add: createProxyClient_def createProxyClient_build_def)

theorem pooled_client_returned_unparsed_witness:
  "httpClientPool one_pooled_client \<noteq> []
   \<and> isl (url_Parse example_library (with_scheme ''bad host:1080''))
   \<and> createProxyClient example_config example_library ''bad host:1080'' one_pooled_client
       = Some (Inr some_client, initial_shared)"
proof -
  have 1: "httpClientPool one_pooled_client \<noteq> []" by (simp add: one_pooled_client_def)
  from pooled_client_returned_unparsed [OF 1, of example_config example_library "''bad host:1080''"]
  show ?thesis using 1
    by (simp add: one_pooled_client_def initial_shared_def example_library_def with_scheme_def)
qed

text \<open>
  C6 as stated fails: a malformed address is no error while \<^verbatim>\<open>httpClientPool\<close> holds a
  client.
\<close>

theorem pooled_client_hides_malformed_address:
  "isl (url_Parse example_library (with_scheme ''bad host:1080''))
   \<and> httpClientPool one_pooled_client = [some_client]
   \<and> createProxyClient example_config example_library ''bad host:1080'' one_pooled_client
       = Some (Inr some_client, initial_shared)"
  by (simp add: scenario_defs code_defs)

text \<open>
  C6, amended. \<^verbatim>\<open>createProxyClient\<close> returns an error exactly when \<^verbatim>\<open>httpClientPool\<close> is empty
  and either \<^verbatim>\<open>url.Parse\<close> rejects the address (with \<^verbatim>\<open>socks5://\<close> put in front where it is
  missing) or \<^verbatim>\<open>retryCount\<close> is positive and every one of the \<^verbatim>\<open>retryCount\<close> attempts
  to construct the dialer fails. A lane that receives the error logs it to the proxies
  log and goes back to line 189 to receive another proxy: the failed proxy is not put
  back into \<^verbatim>\<open>proxiesPool\<close> and not tried again.
\<close>

theorem acquire_fails_iff:
  "((\<exists>e s'. createProxyClient cfg lib proxyURL s = Some (Inl e, s')) \<longleftrightarrow>
      httpClientPool s = [] \<and>
      (case url_Parse lib (with_scheme proxyURL) of
         Inl err \<Rightarrow> True
       | Inr u \<Rightarrow> dial_fails cfg lib u))
   \<and> (\<forall>e s'. createProxyClient cfg lib proxyURL s = Some (Inl e, s') \<longrightarrow>
         lane_step cfg lib w (L_create proxyURL) s =
           Some (L_take, proxiesLogger_Printf (Failed_to_create_client_with_proxy proxyURL e) s')
         \<and> proxiesPool s' = proxiesPool s)"
proof (intro conjI allI impI)
  show "(\<exists>e s'. createProxyClient cfg lib proxyURL s = Some (Inl e, s')) \<longleftrightarrow>
      httpClientPool s = [] \<and>
      (case url_Parse lib (with_scheme proxyURL) of
         Inl err \<Rightarrow> True
       | Inr u \<Rightarrow> dial_fails cfg lib u)"
    unfolding createProxyClient_error_iff by (rule build_failed_iff)
next
  fix e s' assume "createProxyClient cfg lib proxyURL s = Some (Inl e, s')"
  then have b: "createProxyClient_build cfg lib proxyURL s = (Failed e, s')"
    by (simp add: createProxyClient_error_iff)
  then show "lane_step cfg lib w (L_create proxyURL) s =
           Some (L_take, proxiesLogger_Printf (Failed_to_create_client_with_proxy proxyURL e) s')"
    by simp
  show "proxiesPool s' = proxiesPool s" using createProxyClient_build_frame [OF b] by simp
qed

theorem acquire_fails_iff_witness:
  "httpClientPool initial_shared = []
   \<and> url_Parse example_library (with_scheme ''bad host:1080'')
       = Inl (Err ''invalid character in host name'')
   \<and> createProxyClient example_config example_library ''bad host:1080'' initial_shared
       = Some (Inl (Wrapped ''Failed to parse proxy URL'' (Err ''invalid character in host name'')),
               initial_shared\<lparr>request_log :=
                 [Error_in_createProxyClient (Err ''invalid character in host name'')]\<rparr>)
   \<and> lane_step example_config example_library calm (L_create ''bad host:1080'') initial_shared
       = Some (L_take,
               initial_shared\<lparr>request_log :=
                 [Error_in_createProxyClient (Err ''invalid character in host name'')],
                 proxies_log :=
                 [Failed_to_create_client_with_proxy ''bad host:1080''
                    (Wrapped ''Failed to parse proxy URL''
                       (Err ''invalid character in host name''))]\<rparr>)"
proof -
  have c: "createProxyClient example_config example_library ''bad host:1080'' initial_shared
       = Some (Inl (Wrapped ''Failed to parse proxy URL'' (Err ''invalid character in host name'')),
               initial_shared\<lparr>request_log :=
                 [Error_in_createProxyClient (Err ''invalid character in host name'')]\<rparr>)"
    by (simp add: scenario_defs code_defs)
  from acquire_fails_iff [of example_config example_library "''bad host:1080''" initial_shared calm]
  have "lane_step example_config example_library calm (L_create ''bad host:1080'') initial_shared
       = Some (L_take, proxiesLogger_Printf
                 (Failed_to_create_client_with_proxy ''bad host:1080''
                    (Wrapped ''Failed to parse proxy URL''
                       (Err ''invalid character in host name'')))
                 (initial_shared\<lparr>request_log :=
                    [Error_in_createProxyClient (Err ''invalid character in host name'')]\<rparr>))"
    using c by blast
  then show ?thesis using c
    by (simp add: proxiesLogger_Printf_def initial_shared_def example_library_def with_scheme_def)
qed

section \<open>Concrete runs\<close>

lemma start_example: "start example_config = Some example_start"
  by (simp add: scenario_defs code_defs)

lemma start_two_proxies: "start two_proxies_config = Some example_start"
  by (simp add: scenario_defs code_defs)

lemma overrun_reached:
  "run example_config example_library overrun_schedule example_start = Some overrun_state"
  by (simp add: overrun_schedule_def overrun_state_def scenario_defs code_defs) auto

lemma completion_reached:
  "run example_config example_library completion_schedule overrun_state = Some completed_state"
  by (simp add: completion_schedule_def overrun_state_def completed_state_def
        scenario_defs code_defs)

lemma exhaustion_reached:
  "run two_proxies_config example_library exhausting_schedule example_start
     = Some exhausted_state"
  by (simp add: exhausting_schedule_def exhausted_state_def scenario_defs code_defs) auto

text \<open>
  C1. Two candidates whose probes return the same public address are both accepted: the
  lookup of line 165 is keyed by the candidate's address, and the address that
  \<^verbatim>\<open>testProxy\<close> stores is never looked up. After the schedule the success counter is 2,
  \<^verbatim>\<open>a:1080\<close> is in use by lane 0 and \<^verbatim>\<open>b:1080\<close> is in the pool.
\<close>

theorem same_egress_accepted_twice:
  "probe_result calm = Inr \<lparr>StatusCode = 200, Body = Inr ''203.0.113.7''\<rparr>
   \<and> Option.bind (start example_config)
        (run example_config example_library same_address_schedule) = Some same_address_state
   \<and> successfulProxyConnections (globals same_address_state) = 2
   \<and> proxiesPool (globals same_address_state) = [''b:1080'']
   \<and> lanes same_address_state ! 0
        = L_request ''a:1080'' \<lparr>dial_host = ''a:1080'', dial_auth = None\<rparr> no_buffers 0"
proof -
  have "run example_config example_library same_address_schedule example_start
          = Some same_address_state"
    by (simp add: same_address_schedule_def same_address_state_def scenario_defs code_defs) auto
  then show ?thesis
    by (simp add: start_example) (simp add: same_address_state_def calm_def)
qed

section \<open>The proxy pool\<close>

lemma worker_step_pool:
  assumes "worker_step cfg lib w p s = Some (p', s')"
    and "length (proxiesPool s) \<le> nat (numOfThreads cfg)"
  shows "length (proxiesPool s') \<le> nat (numOfThreads cfg)"
proof (cases p)
  case (W_create x)
  then show ?thesis using assms
    by (auto split: prod.splits acquired.splits dest!: createProxyClient_build_frame)
next
  case (W_pool x c)
  then show ?thesis using assms
    by (auto split: option.splits dest!: httpClientPool_send_frame)
next
  case (W_test x c)
  then show ?thesis using assms
    by (auto split: prod.splits bool.splits dest!: testProxy_frame)
qed (use assms in \<open>auto simp: Let_def split: option.splits if_splits\<close>)

lemma lane_step_pool:
  assumes "lane_step cfg lib w l s = Some (l', s')"
    and "length (proxiesPool s) \<le> nat (numOfThreads cfg)"
  shows "length (proxiesPool s') \<le> nat (numOfThreads cfg)"
proof (cases l)
  case (L_create x)
  then show ?thesis using assms
    by (auto simp: proxiesLogger_Printf_def split: prod.splits acquired.splits
          dest!: createProxyClient_build_frame)
next
  case (L_pool x c)
  then show ?thesis using assms
    by (auto split: option.splits dest!: httpClientPool_send_frame)
next
  case (L_request x c b k)
  then show ?thesis using assms
    by (auto simp: Let_def split: option.splits if_splits dest!: sendRequest_frame)
qed (use assms in \<open>auto simp: Let_def split: list.splits if_splits\<close>)

lemma step_pool:
  assumes "step cfg lib e \<sigma> = Some \<sigma>'"
    and "length (proxiesPool (globals \<sigma>)) \<le> nat (numOfThreads cfg)"
  shows "length (proxiesPool (globals \<sigma>')) \<le> nat (numOfThreads cfg)"
proof (cases e)
  case (Validator i w)
  then show ?thesis using assms
    by (auto split: if_splits option.splits dest: worker_step_pool)
next
  case (Dispatcher i w)
  then show ?thesis using assms
    by (auto split: if_splits option.splits dest: lane_step_pool)
next
  case Spawn
  then show ?thesis using assms by (auto split: if_splits)
next
  case Minute
  then show ?thesis using assms by auto
qed

lemma run_pool:
  "run cfg lib es \<sigma> = Some \<sigma>' \<Longrightarrow>
   length (proxiesPool (globals \<sigma>)) \<le> nat (numOfThreads cfg) \<Longrightarrow>
   length (proxiesPool (globals \<sigma>')) \<le> nat (numOfThreads cfg)"
proof (induction es arbitrary: \<sigma>)
  case Nil
  then show ?case by simp
next
  case (Cons e es)
  from Cons.prems(1) obtain \<sigma>1 where s1: "step cfg lib e \<sigma> = Some \<sigma>1"
    and r: "run cfg lib es \<sigma>1 = Some \<sigma>'"
    by (auto split: option.splits)
  from step_pool [OF s1 Cons.prems(2)] r show ?case by (rule Cons.IH [rotated])
qed

text \<open>
  C4 as stated fails: with two lanes, two proxies are buffered in the pool while a
  validator holds a third, accepted one at its send.
\<close>

theorem in_flight_exceeds_lanes:
  "Option.bind (start example_config) (run example_config example_library overrun_schedule)
     = Some overrun_state
   \<and> proxiesPool (globals overrun_state) = [''a:1080'', ''b:1080'']
   \<and> workers overrun_state ! 1 = W_send ''c:1080''
   \<and> in_flight overrun_state = 3
   \<and> numOfThreads example_config = 2"
  by (simp add: start_example overrun_reached)
     (simp add: overrun_state_def in_flight_def example_config_def)

lemma pool_bound:
  assumes "start cfg = Some \<sigma>0" and "run cfg lib es \<sigma>0 = Some \<sigma>"
  shows "length (proxiesPool (globals \<sigma>)) \<le> nat (numOfThreads cfg)"
proof -
  have "proxiesPool (globals \<sigma>0) = []"
    using assms(1) by (auto simp: start_def initial_shared_def split: if_splits)
  then show ?thesis using run_pool [OF assms(2)] by simp
qed

lemma active_bounds: "0 \<le> active v \<and> active v \<le> 1"
  by (cases v) simp_all

lemma sum_active_bounds: "0 \<le> sum_list (map active vs) \<and> sum_list (map active vs) \<le> int (length vs)"
proof (induction vs)
  case Nil
  then show ?case by simp
next
  case (Cons v vs)
  then show ?case using active_bounds [of v] by simp
qed

lemma worker_holds_le: "worker_holds v \<le> counted v + active v"
  by (cases v) simp_all

lemma sum_worker_holds_le:
  "sum_list (map worker_holds vs) \<le> sum_list (map counted vs) + sum_list (map active vs)"
proof (induction vs)
  case Nil
  then show ?case by simp
next
  case (Cons v vs)
  then show ?case using worker_holds_le [of v] by simp
qed

lemma worker_step_validation:
  assumes st: "worker_step cfg lib w p s = Some (p', s')"
    and proxy: "useProxy cfg"
    and c: "0 \<le> successfulProxyConnections s"
    and A: "0 \<le> A" "A < n"
    and cb: "successfulProxyConnections s + (A + active p) \<le> max 0 (numOfThreads cfg - 1) + n"
    and fits: "max 0 (numOfThreads cfg - 1) + n < 2147483648"
    and cnt: "int (length (proxiesPool s)) + H + (S + counted p) \<le> successfulProxyConnections s"
  shows "0 \<le> successfulProxyConnections s'
     \<and> successfulProxyConnections s' + (A + active p') \<le> max 0 (numOfThreads cfg - 1) + n
     \<and> int (length (proxiesPool s')) + H + (S + counted p') \<le> successfulProxyConnections s'"
proof (cases p)
  case W_check
  then show ?thesis using st proxy c A cb cnt by (auto split: if_splits)
next
  case W_pick
  then show ?thesis using st c cb cnt by (auto simp: Let_def split: option.splits if_splits)
next
  case (W_create x)
  then show ?thesis using st c cb cnt
    by (auto split: prod.splits acquired.splits dest!: createProxyClient_build_frame)
next
  case (W_pool x cl)
  then show ?thesis using st c cb cnt
    by (auto split: option.splits dest!: httpClientPool_send_frame)
next
  case (W_test x cl)
  then show ?thesis using st c cb cnt
    by (auto split: prod.splits bool.splits dest!: testProxy_frame)
next
  case W_failed
  then show ?thesis using st c cb cnt by auto
next
  case (W_count x)
  have "successfulProxyConnections s + 1 < 2147483648" using cb fits A W_count by simp
  then have "AddInt32 (successfulProxyConnections s) 1 = successfulProxyConnections s + 1"
    using c by (simp add: AddInt32_def wrap32_id)
  then show ?thesis using W_count st c cb cnt by auto
next
  case (W_store x)
  then show ?thesis using st c cb cnt by auto
next
  case (W_send x)
  then show ?thesis using st c cb cnt by (auto split: if_splits)
next
  case W_done
  then show ?thesis using st by simp
qed

lemma lane_step_validation:
  assumes st: "lane_step cfg lib w l s = Some (l', s')"
    and cnt: "int (length (proxiesPool s)) + (H + lane_holds l) + S \<le> successfulProxyConnections s"
  shows "successfulProxyConnections s' = successfulProxyConnections s
     \<and> int (length (proxiesPool s')) + (H + lane_holds l') + S \<le> successfulProxyConnections s"
proof (cases l)
  case L_take
  then show ?thesis using st cnt by (auto split: list.splits)
next
  case (L_create x)
  then show ?thesis using st cnt
    by (auto simp: proxiesLogger_Printf_def split: prod.splits acquired.splits
          dest!: createProxyClient_build_frame)
next
  case (L_pool x c)
  then show ?thesis using st cnt
    by (auto split: option.splits dest!: httpClientPool_send_frame)
next
  case (L_request x c b k)
  then show ?thesis using st cnt
    by (auto simp: Let_def split: option.splits if_splits dest!: sendRequest_frame)
next
  case (L_count m)
  then show ?thesis using st cnt by (auto simp: Let_def split: if_splits)
next
  case (L_return x)
  then show ?thesis using st cnt by (auto split: if_splits)
next
  case L_done
  then show ?thesis using st by simp
qed

lemma step_validation:
  assumes inv: "validation_inv cfg \<sigma>"
    and st: "step cfg lib e \<sigma> = Some \<sigma>'"
    and proxy: "useProxy cfg"
    and fits: "2 * numOfThreads cfg < 2147483648"
  shows "validation_inv cfg \<sigma>'"
proof (cases e)
  case (Validator i w)
  then obtain p' s' where i: "i < length (workers \<sigma>)"
    and ws: "worker_step cfg lib w (workers \<sigma> ! i) (globals \<sigma>) = Some (p', s')"
    and \<sigma>': "\<sigma>' = \<sigma>\<lparr>globals := s', workers := (workers \<sigma>)[i := p']\<rparr>"
    using st by (auto split: if_splits option.splits)
  let ?vs = "workers \<sigma>"
  let ?ws = "(workers \<sigma>)[i := W_done]"
  let ?A = "sum_list (map active ?ws)"
  let ?S = "sum_list (map counted ?ws)"
  let ?H = "sum_list (map lane_holds (lanes \<sigma>))"
  let ?n = "int (length ?vs)"
  have len: "nat (numOfThreads cfg) = length ?vs" using inv by (simp add: validation_inv_def)
  have L1: "1 \<le> numOfThreads cfg" using len i by linarith
  have n: "?n = numOfThreads cfg" using len L1 by linarith
  have sa: "sum_list (map active ?vs) = ?A + active (?vs ! i)"
    using sum_list_map_update [OF i, of active W_done] by simp
  have ss: "sum_list (map counted ?vs) = ?S + counted (?vs ! i)"
    using sum_list_map_update [OF i, of counted W_done] by simp
  have A0: "0 \<le> ?A" using sum_active_bounds [of ?ws] by simp
  have A1: "?A < ?n"
  proof -
    have "?A = sum_list (map active (take i ?vs)) + sum_list (map active (drop (Suc i) ?vs))"
      using i by (simp add: upd_conv_take_nth_drop)
    also have "\<dots> \<le> int (length (take i ?vs)) + int (length (drop (Suc i) ?vs))"
      using sum_active_bounds [of "take i ?vs"] sum_active_bounds [of "drop (Suc i) ?vs"]
      by linarith
    also have "\<dots> < ?n" using i by simp
    finally show ?thesis .
  qed
  have fits': "max 0 (numOfThreads cfg - 1) + ?n < 2147483648" using fits n L1 by simp
  have res: "0 \<le> successfulProxyConnections s'
     \<and> successfulProxyConnections s' + (?A + active p') \<le> max 0 (numOfThreads cfg - 1) + ?n
     \<and> int (length (proxiesPool s')) + ?H + (?S + counted p') \<le> successfulProxyConnections s'"
  proof (rule worker_step_validation [OF ws proxy _ A0 A1 _ fits'])
    show "0 \<le> successfulProxyConnections (globals \<sigma>)" using inv by (simp add: validation_inv_def)
    show "successfulProxyConnections (globals \<sigma>) + (?A + active (?vs ! i))
            \<le> max 0 (numOfThreads cfg - 1) + ?n"
      using inv sa by (simp add: validation_inv_def)
    show "int (length (proxiesPool (globals \<sigma>))) + ?H + (?S + counted (?vs ! i))
            \<le> successfulProxyConnections (globals \<sigma>)"
      using inv ss by (simp add: validation_inv_def)
  qed
  have sa': "sum_list (map active (?vs[i := p'])) = ?A + active p'"
    using sum_list_map_update [OF i, of active p'] sa by simp
  have ss': "sum_list (map counted (?vs[i := p'])) = ?S + counted p'"
    using sum_list_map_update [OF i, of counted p'] ss by simp
  show ?thesis
    unfolding validation_inv_def \<sigma>' using res sa' ss' len by simp
next
  case (Dispatcher i w)
  then obtain l' s' where i: "i < length (lanes \<sigma>)"
    and ls: "lane_step cfg lib w (lanes \<sigma> ! i) (globals \<sigma>) = Some (l', s')"
    and \<sigma>': "\<sigma>' = \<sigma>\<lparr>globals := s', lanes := (lanes \<sigma>)[i := l']\<rparr>"
    using st by (auto split: if_splits option.splits)
  let ?xs = "lanes \<sigma>"
  let ?H = "sum_list (map lane_holds (?xs[i := L_done]))"
  let ?S = "sum_list (map counted (workers \<sigma>))"
  have sh: "sum_list (map lane_holds ?xs) = ?H + lane_holds (?xs ! i)"
    using sum_list_map_update [OF i, of lane_holds L_done] by simp
  have res: "successfulProxyConnections s' = successfulProxyConnections (globals \<sigma>)
     \<and> int (length (proxiesPool s')) + (?H + lane_holds l') + ?S
          \<le> successfulProxyConnections (globals \<sigma>)"
  proof (rule lane_step_validation [OF ls])
    show "int (length (proxiesPool (globals \<sigma>))) + (?H + lane_holds (?xs ! i)) + ?S
            \<le> successfulProxyConnections (globals \<sigma>)"
      using inv sh by (simp add: validation_inv_def)
  qed
  have sh': "sum_list (map lane_holds (?xs[i := l'])) = ?H + lane_holds l'"
    using sum_list_map_update [OF i, of lane_holds l'] sh by simp
  show ?thesis
    unfolding validation_inv_def \<sigma>' using res sh' inv by (simp add: validation_inv_def)
next
  case Spawn
  then show ?thesis using st inv by (auto simp: validation_inv_def split: if_splits)
next
  case Minute
  then show ?thesis using st inv by (auto simp: validation_inv_def)
qed

lemma run_validation:
  assumes proxy: "useProxy cfg"
    and fits: "2 * numOfThreads cfg < 2147483648"
  shows "validation_inv cfg \<sigma> \<Longrightarrow> run cfg lib es \<sigma> = Some \<sigma>' \<Longrightarrow> validation_inv cfg \<sigma>'"
proof (induction es arbitrary: \<sigma>)
  case Nil
  then show ?case by simp
next
  case (Cons e es)
  from Cons.prems(2) obtain \<sigma>1 where s1: "step cfg lib e \<sigma> = Some \<sigma>1"
    and r: "run cfg lib es \<sigma>1 = Some \<sigma>'"
    by (auto split: option.splits)
  from step_validation [OF Cons.prems(1) s1 proxy fits] have "validation_inv cfg \<sigma>1" .
  then show ?case using r by (rule Cons.IH)
qed

lemma start_validation:
  assumes "start cfg = Some \<sigma>"
  shows "validation_inv cfg \<sigma>"
proof -
  have "\<sigma> = \<lparr>globals = initial_shared,
                 workers = replicate (nat (numOfThreads cfg)) W_check,
                 lanes = (if runIndefinitely cfg then []
                          else replicate (nat (numOfThreads cfg)) L_take),
                 spawning = runIndefinitely cfg\<rparr>"
    using assms by (auto simp: start_def split: if_splits)
  then show ?thesis
    by (simp add: validation_inv_def sum_list_replicate initial_shared_def)
qed

text \<open>
  C4, amended. At every instant of a run, bounded or indefinite, the number of proxies
  buffered in \<^verbatim>\<open>proxiesPool\<close> never exceeds \<^verbatim>\<open>numOfThreads\<close>; and when proxies are in use
  (and twice \<^verbatim>\<open>numOfThreads\<close> fits an \<^verbatim>\<open>int32\<close>) the number of validated proxies in flight,
  held by a lane, buffered in the pool or in transit in a validator, never exceeds
  \<^verbatim>\<open>2 * numOfThreads - 1\<close>.
\<close>

theorem in_flight_bound:
  assumes "start cfg = Some \<sigma>0" and "run cfg lib es \<sigma>0 = Some \<sigma>"
  shows "length (proxiesPool (globals \<sigma>)) \<le> nat (numOfThreads cfg)
       \<and> (useProxy cfg \<and> 2 * numOfThreads cfg < 2147483648
            \<longrightarrow> in_flight \<sigma> \<le> max 0 (2 * numOfThreads cfg - 1))"
proof (intro conjI impI)
  show "length (proxiesPool (globals \<sigma>)) \<le> nat (numOfThreads cfg)"
    using assms by (rule pool_bound)
next
  assume h: "useProxy cfg \<and> 2 * numOfThreads cfg < 2147483648"
  then have proxy: "useProxy cfg" and fits: "2 * numOfThreads cfg < 2147483648" by simp_all
  have inv: "validation_inv cfg \<sigma>"
    using run_validation [OF proxy fits start_validation [OF assms(1)] assms(2)] .
  have len: "nat (numOfThreads cfg) = length (workers \<sigma>)"
    using inv by (simp add: validation_inv_def)
  have "in_flight \<sigma> \<le> int (length (proxiesPool (globals \<sigma>)))
          + sum_list (map lane_holds (lanes \<sigma>))
          + (sum_list (map counted (workers \<sigma>)) + sum_list (map active (workers \<sigma>)))"
    using sum_worker_holds_le [of "workers \<sigma>"] by (simp add: in_flight_def)
  also have "\<dots> \<le> successfulProxyConnections (globals \<sigma>)
                  + sum_list (map active (workers \<sigma>))"
    using inv by (simp add: validation_inv_def)
  also have "\<dots> \<le> max 0 (numOfThreads cfg - 1) + int (length (workers \<sigma>))"
    using inv by (simp add: validation_inv_def)
  also have "\<dots> \<le> max 0 (2 * numOfThreads cfg - 1)" using len by linarith
  finally show "in_flight \<sigma> \<le> max 0 (2 * numOfThreads cfg - 1)" .
qed

theorem in_flight_bound_witness:
  "start example_config = Some example_start
   \<and> run example_config example_library overrun_schedule example_start = Some overrun_state
   \<and> useProxy example_config
   \<and> 2 * numOfThreads example_config < 2147483648
   \<and> length (proxiesPool (globals overrun_state)) = 2
   \<and> nat (numOfThreads example_config) = 2
   \<and> in_flight overrun_state = 3
   \<and> max 0 (2 * numOfThreads example_config - 1) = 3"
proof -
  from in_flight_bound [OF start_example overrun_reached]
  show ?thesis
    by (simp add: start_example overrun_reached)
       (simp add: overrun_state_def example_config_def in_flight_def)
qed

section \<open>Termination of the validators\<close>

lemma step_done_stays:
  assumes "step cfg lib e \<sigma> = Some \<sigma>'" and "i < length (workers \<sigma>)"
    and "workers \<sigma> ! i = W_done"
  shows "i < length (workers \<sigma>') \<and> workers \<sigma>' ! i = W_done"
proof (cases e)
  case (Validator j w)
  then show ?thesis using assms
    by (cases "j = i") (auto split: if_splits option.splits)
next
  case (Dispatcher j w)
  then show ?thesis using assms by (auto split: if_splits option.splits)
next
  case Spawn
  then show ?thesis using assms by (auto split: if_splits)
next
  case Minute
  then show ?thesis using assms by auto
qed

lemma run_done_stays:
  "run cfg lib es \<sigma> = Some \<sigma>' \<Longrightarrow> i < length (workers \<sigma>) \<Longrightarrow>
   workers \<sigma> ! i = W_done \<Longrightarrow> workers \<sigma>' ! i = W_done"
proof (induction es arbitrary: \<sigma>)
  case Nil
  then show ?case by simp
next
  case (Cons e es)
  from Cons.prems(1) obtain \<sigma>1 where s1: "step cfg lib e \<sigma> = Some \<sigma>1"
    and r: "run cfg lib es \<sigma>1 = Some \<sigma>'"
    by (auto split: option.splits)
  from step_done_stays [OF s1 Cons.prems(2,3)] r show ?case
    by (auto intro: Cons.IH)
qed

text \<open>
  Nothing is ever removed from \<^verbatim>\<open>uniqueIPs\<close>. So once every candidate of the list is in it,
  a validator inside the inner loop of lines 161 to 177 stays there in every continuation
  of the run: each draw finds its candidate recorded, and the counter is not read.
\<close>

lemma createProxyClient_build_uniqueIPs:
  "createProxyClient_build cfg lib p s = (a, s') \<Longrightarrow> uniqueIPs s' = uniqueIPs s"
  by (cases "httpClientPool s")
     (simp_all add: createProxyClient_build_def log_Printf_def
        split: sum.splits option.splits, auto)

lemma httpClientPool_send_uniqueIPs:
  "httpClientPool_send cfg c s = Some s' \<Longrightarrow> uniqueIPs s' = uniqueIPs s"
  by (cases "int (length (httpClientPool s)) < numOfThreads cfg")
     (simp_all add: httpClientPool_send_def, auto)

lemma testProxy_uniqueIPs:
  "testProxy r s = (ok, s') \<Longrightarrow> uniqueIPs s \<subseteq> uniqueIPs s'"
  by (auto simp: testProxy_def proxiesLogger_Printf_def split: sum.splits if_splits)

lemma sendRequest_uniqueIPs:
  assumes "sendRequest cfg lib w c (s, b) = Some (s', b')"
  shows "uniqueIPs s' = uniqueIPs s"
proof -
  have "f (uniqueIPs s') = f (uniqueIPs s)" for f :: "string set \<Rightarrow> bool"
    using assms
    by (auto simp: sendRequest_def onRequest_def log_Printf_def bar_Increment_def
          add_failureCount_def add_successCount_def Let_def
        split: option.splits sum.splits if_splits)
  from this [of "\<lambda>X. X = uniqueIPs s"] show ?thesis by simp
qed

lemma worker_step_uniqueIPs:
  assumes "worker_step cfg lib w p s = Some (p', s')"
  shows "uniqueIPs s \<subseteq> uniqueIPs s'"
proof (cases p)
  case (W_create x)
  obtain a s1 where b: "createProxyClient_build cfg lib x s = (a, s1)" by (rule prod.exhaust)
  from createProxyClient_build_uniqueIPs [OF b] b W_create assms show ?thesis
    by (cases a) auto
next
  case (W_pool x c)
  then obtain s1 where b: "httpClientPool_send cfg c s = Some s1" and "s' = s1"
    using assms by (auto split: option.splits)
  then show ?thesis using httpClientPool_send_uniqueIPs [OF b] by simp
next
  case (W_test x c)
  obtain ok s1 where b: "testProxy (probe_result w) s = (ok, s1)" by (rule prod.exhaust)
  from testProxy_uniqueIPs [OF b] b W_test assms show ?thesis
    by (cases ok) auto
next
  case W_check
  then show ?thesis using assms by (auto split: if_splits)
next
  case W_pick
  then show ?thesis using assms by (auto simp: Let_def split: option.splits if_splits)
next
  case W_failed
  then show ?thesis using assms by auto
next
  case (W_count x)
  then show ?thesis using assms by auto
next
  case (W_store x)
  then show ?thesis using assms by auto
next
  case (W_send x)
  then show ?thesis using assms by (auto split: if_splits)
next
  case W_done
  then show ?thesis using assms by simp
qed

lemma lane_step_uniqueIPs:
  assumes "lane_step cfg lib w l s = Some (l', s')"
  shows "uniqueIPs s' = uniqueIPs s"
proof (cases l)
  case L_take
  then show ?thesis using assms by (cases "proxiesPool s") clarsimp+
next
  case (L_create x)
  obtain a s1 where b: "createProxyClient_build cfg lib x s = (a, s1)" by (rule prod.exhaust)
  from createProxyClient_build_uniqueIPs [OF b] b L_create assms show ?thesis
    by (cases a) (clarsimp simp: proxiesLogger_Printf_def)+
next
  case (L_pool x c)
  then obtain s1 where b: "httpClientPool_send cfg c s = Some s1" and "s' = s1"
    using assms by (clarsimp split: option.splits)
  then show ?thesis using httpClientPool_send_uniqueIPs [OF b] by simp
next
  case (L_request x c b k)
  then obtain b' where sr: "sendRequest cfg lib w c (s, b) = Some (s', b')"
    using assms by (clarsimp simp: Let_def split: option.splits if_splits)
  then show ?thesis by (rule sendRequest_uniqueIPs)
next
  case (L_count m)
  then show ?thesis using assms by (clarsimp simp: Let_def split: if_splits)
next
  case (L_return x)
  then show ?thesis using assms by (clarsimp split: if_splits)
next
  case L_done
  then show ?thesis using assms by simp
qed

lemma Intn_range: "Intn d n = Some i \<Longrightarrow> 0 \<le> i \<and> i < n"
  by (auto simp: Intn_def split: if_splits)

lemma step_inner_loop:
  assumes st: "step cfg lib e \<sigma> = Some \<sigma>'"
    and i: "i < length (workers \<sigma>)" and at: "workers \<sigma> ! i = W_pick"
    and known: "set (proxies cfg) \<subseteq> uniqueIPs (globals \<sigma>)"
  shows "i < length (workers \<sigma>') \<and> workers \<sigma>' ! i = W_pick
       \<and> set (proxies cfg) \<subseteq> uniqueIPs (globals \<sigma>')"
proof (cases e)
  case (Validator j w)
  then obtain p' s' where j: "j < length (workers \<sigma>)"
    and ws: "worker_step cfg lib w (workers \<sigma> ! j) (globals \<sigma>) = Some (p', s')"
    and \<sigma>': "\<sigma>' = \<sigma>\<lparr>globals := s', workers := (workers \<sigma>)[j := p']\<rparr>"
    using st by (auto split: if_splits option.splits)
  have mono: "uniqueIPs (globals \<sigma>) \<subseteq> uniqueIPs s'" using ws by (rule worker_step_uniqueIPs)
  show ?thesis
  proof (cases "j = i")
    case True
    from ws True at obtain k where k: "Intn (pick w) (int (length (proxies cfg))) = Some k"
      by (auto split: option.splits)
    from Intn_range [OF k] have "nat k < length (proxies cfg)" by linarith
    then have "proxies cfg ! nat k \<in> uniqueIPs (globals \<sigma>)" using known by auto
    then have "p' = W_pick" using ws True at k by (simp add: Let_def)
    then show ?thesis using \<sigma>' True i mono known by auto
  next
    case False
    then show ?thesis using \<sigma>' i at mono known by auto
  qed
next
  case (Dispatcher j w)
  then show ?thesis using st i at known
    by (auto split: if_splits option.splits dest!: lane_step_uniqueIPs)
next
  case Spawn
  then show ?thesis using st i at known by (auto split: if_splits)
next
  case Minute
  then show ?thesis using st i at known by auto
qed

lemma run_inner_loop:
  "run cfg lib es \<sigma> = Some \<sigma>' \<Longrightarrow> i < length (workers \<sigma>) \<Longrightarrow> workers \<sigma> ! i = W_pick \<Longrightarrow>
   set (proxies cfg) \<subseteq> uniqueIPs (globals \<sigma>) \<Longrightarrow> workers \<sigma>' ! i = W_pick"
proof (induction es arbitrary: \<sigma>)
  case Nil
  then show ?case by simp
next
  case (Cons e es)
  from Cons.prems(1) obtain \<sigma>1 where s1: "step cfg lib e \<sigma> = Some \<sigma>1"
    and r: "run cfg lib es \<sigma>1 = Some \<sigma>'"
    by (auto split: option.splits)
  from step_inner_loop [OF s1 Cons.prems(2-4)] r show ?case
    by (auto intro: Cons.IH)
qed

lemma validator_never_returns:
  "run two_proxies_config lib es exhausted_state = Some \<sigma> \<Longrightarrow> workers \<sigma> ! 1 = W_pick"
  by (erule run_inner_loop)
     (simp_all add: exhausted_state_def two_proxies_config_def example_config_def)

text \<open>In the example the validator comes back to the very same state whatever it draws.\<close>

lemma spinning_forever:
  "step two_proxies_config example_library (Validator (Suc 0) w) exhausted_state
     = Some exhausted_state"
proof -
  have "int (pick w) mod 2 = 0 \<or> int (pick w) mod 2 = 1" by arith
  then show ?thesis
    by (elim disjE)
       (simp_all add: exhausted_state_def two_proxies_config_def example_config_def Intn_def
          Let_def)
qed

lemma spinning_reached:
  "run two_proxies_config example_library spinning_schedule exhausted_state
     = Some exhausted_state"
  by (simp add: spinning_schedule_def V_def spinning_forever del: step.simps)

text \<open>
  C5 as stated fails: the counter has reached the lane count, and validator 1, which
  passed the check of line 155 before, goes on drawing candidates inside the inner loop
  and is where it was after every draw. By \<open>validator_never_returns\<close> it does not return
  in any continuation of this run.
\<close>

theorem validator_spins_after_quota:
  "Option.bind (start two_proxies_config)
     (run two_proxies_config example_library exhausting_schedule) = Some exhausted_state
   \<and> numOfThreads two_proxies_config = 2
   \<and> successfulProxyConnections (globals exhausted_state) = 2
   \<and> workers exhausted_state ! 1 = W_pick
   \<and> run two_proxies_config example_library spinning_schedule exhausted_state
       = Some exhausted_state"
  by (simp add: start_two_proxies exhaustion_reached spinning_reached)
     (simp add: exhausted_state_def two_proxies_config_def example_config_def)

text \<open>
  C5, amended. A validator that performs the check of line 155 while the counter of
  successful validations is at or above \<^verbatim>\<open>numOfThreads\<close> returns at that step, and has
  returned in every later state of the run: no validator goes on looping after it has
  observed the counter at or above the lane count. (The check is the only place where a
  validator reads the counter.)
\<close>

theorem validator_stops_at_check:
  assumes "i < length (workers \<sigma>)" and "workers \<sigma> ! i = W_check"
    and "numOfThreads cfg \<le> successfulProxyConnections (globals \<sigma>)"
    and "run cfg lib (Validator i w # es) \<sigma> = Some \<sigma>'"
  shows "workers \<sigma>' ! i = W_done"
proof -
  let ?\<sigma>1 = "\<sigma>\<lparr>workers := (workers \<sigma>)[i := W_done]\<rparr>"
  have "step cfg lib (Validator i w) \<sigma> = Some ?\<sigma>1" using assms(1-3) by simp
  then have "run cfg lib es ?\<sigma>1 = Some \<sigma>'" using assms(4) by simp
  from run_done_stays [OF this, of i] assms(1) show ?thesis by simp
qed

theorem validator_stops_at_check_witness:
  "0 < length (workers overrun_state)
   \<and> workers overrun_state ! 0 = W_check
   \<and> numOfThreads example_config \<le> successfulProxyConnections (globals overrun_state)
   \<and> run example_config example_library (Validator 0 calm # tl completion_schedule) overrun_state
       = Some completed_state
   \<and> workers completed_state ! 0 = W_done"
proof -
  have 1: "0 < length (workers overrun_state)" by (simp add: overrun_state_def)
  have 2: "workers overrun_state ! 0 = W_check" by (simp add: overrun_state_def)
  have 3: "numOfThreads example_config \<le> successfulProxyConnections (globals overrun_state)"
    by (simp add: overrun_state_def example_config_def)
  have "Validator 0 calm # tl completion_schedule = completion_schedule"
    by (simp add: completion_schedule_def V_def calm_def)
  then have 4: "run example_config example_library (Validator 0 calm # tl completion_schedule)
                  overrun_state = Some completed_state"
    using completion_reached by simp
  from validator_stops_at_check [OF 1 2 3 4] show ?thesis using 1 2 3 4 by simp
qed

section \<open>The request budget of a bounded run\<close>

lemma live_le_one: "live l \<le> 1" 
  by (cases l) simp_all

lemma live_nonneg: "0 \<le> live l" 
  by (cases l) simp_all

lemma sum_live_le: "sum_list (map live xs) \<le> int (length xs)"
proof (induction xs)
  case Nil
  then show ?case by simp
next
  case (Cons x xs)
  then show ?case using live_le_one [of x] by simp
qed

lemma sum_live_nonneg: "0 \<le> sum_list (map live xs)"
proof (induction xs)
  case Nil
  then show ?case by simp
next
  case (Cons x xs)
  then show ?case using live_nonneg [of x] by simp
qed

lemma done_sum_live: "L_done \<in> set xs \<Longrightarrow> sum_list (map live xs) < int (length xs)"
proof (induction xs)
  case Nil
  then show ?case by simp
next
  case (Cons x xs)
  show ?case
  proof (cases "x = L_done")
    case True
    then show ?thesis using sum_live_le [of xs] by simp
  next
    case False
    then show ?thesis using Cons live_le_one [of x] by simp
  qed
qed

lemma pending_le: "lane_ok cfg l \<Longrightarrow> pending l \<le> max 1 (numOfRequests cfg) * live l"
  by (cases l) auto

lemma pending_nonneg: "lane_ok cfg l \<Longrightarrow> 0 \<le> pending l"
  by (cases l) auto

lemma sum_pending_le:
  "list_all (lane_ok cfg) xs \<Longrightarrow>
   sum_list (map pending xs) \<le> max 1 (numOfRequests cfg) * sum_list (map live xs)"
proof (induction xs)
  case Nil
  then show ?case by simp
next
  case (Cons x xs)
  then show ?case using pending_le [of cfg x] by (simp add: distrib_left)
qed

lemma sum_pending_nonneg: "list_all (lane_ok cfg) xs \<Longrightarrow> 0 \<le> sum_list (map pending xs)"
proof (induction xs)
  case Nil
  then show ?case by simp
next
  case (Cons x xs)
  then show ?case using pending_nonneg [of cfg x] by simp
qed

lemma worker_step_counts:
  "worker_step cfg lib w p s = Some (p', s') \<Longrightarrow>
   totalRequests s' = totalRequests s \<and> totalRequestCount s' = totalRequestCount s"
proof (cases p)
  case (W_create x)
  assume "worker_step cfg lib w p s = Some (p', s')"
  then show ?thesis using W_create
    by (auto split: prod.splits acquired.splits dest: createProxyClient_build_frame)
next
  case (W_pool x c)
  assume "worker_step cfg lib w p s = Some (p', s')"
  then show ?thesis using W_pool
    by (auto split: option.splits dest: httpClientPool_send_frame)
next
  case (W_test x c)
  assume "worker_step cfg lib w p s = Some (p', s')"
  then show ?thesis using W_test
    by (auto split: prod.splits bool.splits dest: testProxy_frame)
qed (auto simp: Let_def split: option.splits if_splits)


lemma lane_step_budget:
  assumes st: "lane_step cfg lib w l s = Some (l', s')"
    and ok: "lane_ok cfg l"
    and bounded: "\<not> runIndefinitely cfg"
    and B: "B = max 1 (numOfRequests cfg)"
    and P: "0 \<le> P" "P \<le> B * A" and A: "0 \<le> A" "A < n"
    and trc: "0 \<le> totalRequestCount s"
    and tr: "totalRequests s = totalRequestCount s + (P + pending l)"
    and ub: "totalRequestCount s + B * (A + live l)
               \<le> max 0 (numOfThreads cfg * numOfRequests cfg - 1) + B * n"
    and dn: "A + live l < n \<longrightarrow> numOfThreads cfg * numOfRequests cfg \<le> totalRequestCount s"
    and fits: "max 0 (numOfThreads cfg * numOfRequests cfg - 1) + B * n < 2147483648"
  shows "lane_ok cfg l' \<and> 0 \<le> totalRequestCount s'
     \<and> totalRequests s' = totalRequestCount s' + (P + pending l')
     \<and> totalRequestCount s' + B * (A + live l')
               \<le> max 0 (numOfThreads cfg * numOfRequests cfg - 1) + B * n
     \<and> (A + live l' < n \<longrightarrow> numOfThreads cfg * numOfRequests cfg \<le> totalRequestCount s')"
proof (cases l)
  case L_take
  then show ?thesis using st ok trc tr ub dn
    by (auto split: list.splits)
next
  case (L_create p)
  then show ?thesis using st ok trc tr ub dn
    by (auto simp: proxiesLogger_Printf_def split: prod.splits acquired.splits
          dest!: createProxyClient_build_frame)
next
  case (L_pool p c)
  then show ?thesis using st ok trc tr ub dn
    by (auto split: option.splits dest!: httpClientPool_send_frame)
next
  case (L_request p c b k)
  from st L_request obtain b' where sr: "sendRequest cfg lib w c (s, b) = Some (s', b')"
    by (auto simp: Let_def split: option.splits if_splits)
  note fr = sendRequest_frame [OF sr]
  have k: "0 \<le> k" "k < B" using ok L_request B by simp_all
  have "B * (A + 1) = B * A + B" by (simp add: distrib_left)
  then have room: "totalRequests s + 1 \<le> max 0 (numOfThreads cfg * numOfRequests cfg - 1) + B * n"
    using tr ub P k L_request by simp
  have "0 \<le> totalRequests s" using tr trc P k L_request by simp
  then have tr': "totalRequests s' = totalRequests s + 1"
    using fr room fits by (simp add: AddInt32_def wrap32_id)
  have l': "l' = (if k + 1 \<ge> numOfRequests cfg then L_count (k + 1)
                  else L_request p c b' (k + 1))"
    using st L_request sr bounded by (auto simp: Let_def)
  have okl': "lane_ok cfg l'" using l' k B by auto
  have pl': "pending l' = k + 1" using l' by simp
  have ll': "live l' = 1" using l' by simp
  show ?thesis using okl' pl' ll' tr' fr trc tr ub dn L_request by simp
next
  case (L_count m)
  let ?T = "numOfThreads cfg * numOfRequests cfg"
  have m: "m = B" using ok L_count B by simp
  have Bpos: "1 \<le> B" using B by simp
  have Bn: "B * (A + 1) = B * A + B" by (simp add: distrib_left)
  have BA: "0 \<le> B * A" using A Bpos by simp
  have up: "totalRequestCount s + B \<le> max 0 (?T - 1) + B * n"
    using ub Bn BA L_count by simp
  have wm: "wrap32 m = m" using m up trc fits Bpos by (intro wrap32_id) auto
  have v: "AddInt32 (totalRequestCount s) (wrap32 m) = totalRequestCount s + B"
    using wm m up trc fits Bpos by (simp add: AddInt32_def wrap32_id)
  show ?thesis
  proof (cases "totalRequestCount s + B \<ge> ?T")
    case True
    then have "l' = L_done" "s' = s\<lparr>totalRequestCount := totalRequestCount s + B\<rparr>"
      using st L_count v by (auto simp: Let_def)
    then show ?thesis using trc tr ub Bn L_count m True Bpos by simp
  next
    case False
    then have ls: "l' = L_take" "s' = s\<lparr>totalRequestCount := totalRequestCount s + B\<rparr>"
      using st L_count v by (auto simp: Let_def)
    have nd: "\<not> (A + 1 < n)" using dn False L_count Bpos by auto
    have "B * (A + 1) \<le> B * n" using A Bpos by (intro mult_left_mono) auto
    then show ?thesis using ls trc tr L_count m False nd Bpos by simp
  qed
next
  case (L_return p)
  then show ?thesis using ok by simp
next
  case L_done
  then show ?thesis using st by simp
qed


lemma half_bound: "(m::int) \<le> X \<Longrightarrow> 2 * X < N \<Longrightarrow> m + X < N"
  by linarith

lemma fits_bound:
  assumes "2 * L * max 1 R < 2147483648" and "1 \<le> (L::int)"
  shows "max 0 (L * R - 1) + max 1 R * L < 2147483648"
proof -
  define X where "X = L * max 1 R"
  have "L * R \<le> L * max 1 R" using assms(2) by (intro mult_left_mono) auto
  then have 1: "L * R - 1 \<le> X" by (simp add: X_def)
  have 2: "0 \<le> X" using assms(2) by (simp add: X_def)
  have 3: "2 * X < 2147483648" using assms(1) by (simp add: X_def)
  have 4: "max 1 R * L = X" by (simp add: X_def mult.commute)
  have "max 0 (L * R - 1) \<le> X" by (rule max.boundedI [OF 2 1])
  then have "max 0 (L * R - 1) + X < 2147483648" using 3 by (rule half_bound)
  then show ?thesis by (simp only: 4)
qed

lemma step_budget:
  assumes inv: "budget_inv cfg \<sigma>"
    and st: "step cfg lib e \<sigma> = Some \<sigma>'"
    and bounded: "\<not> runIndefinitely cfg"
    and fits: "2 * numOfThreads cfg * max 1 (numOfRequests cfg) < 2147483648"
  shows "budget_inv cfg \<sigma>'"
proof (cases e)
  case (Validator i w)
  then obtain p s where ws: "worker_step cfg lib w (workers \<sigma> ! i) (globals \<sigma>) = Some (p, s)"
    and \<sigma>': "\<sigma>' = \<sigma>\<lparr>globals := s, workers := (workers \<sigma>)[i := p]\<rparr>"
    using st by (auto split: if_splits option.splits)
  from worker_step_counts [OF ws] inv \<sigma>' show ?thesis
    by (simp add: budget_inv_def)
next
  case (Dispatcher i w)
  then obtain l' s' where i: "i < length (lanes \<sigma>)"
    and ls: "lane_step cfg lib w (lanes \<sigma> ! i) (globals \<sigma>) = Some (l', s')"
    and \<sigma>': "\<sigma>' = \<sigma>\<lparr>globals := s', lanes := (lanes \<sigma>)[i := l']\<rparr>"
    using st by (auto split: if_splits option.splits)
  let ?B = "max 1 (numOfRequests cfg)"
  let ?xs = "lanes \<sigma>"
  let ?ys = "(lanes \<sigma>)[i := L_done]"
  let ?P = "sum_list (map pending ?ys)"
  let ?A = "sum_list (map live ?ys)"
  let ?n = "int (length ?xs)"
  have all: "list_all (lane_ok cfg) ?xs" using inv by (simp add: budget_inv_def)
  have ok: "lane_ok cfg (?xs ! i)" using all i by (rule list_all_nth)
  have all': "list_all (lane_ok cfg) ?ys" using all by (rule list_all_update) simp
  have P: "0 \<le> ?P" "?P \<le> ?B * ?A"
    using sum_pending_nonneg [OF all'] sum_pending_le [OF all'] by simp_all
  have "L_done \<in> set ?ys" using i by (simp add: set_update_memI)
  then have A: "0 \<le> ?A" "?A < ?n"
    using sum_live_nonneg [of ?ys] done_sum_live [of ?ys] by simp_all
  have sp: "sum_list (map pending ?xs) = ?P + pending (?xs ! i)"
    using sum_list_map_update [OF i, of pending L_done] by simp
  have sl: "sum_list (map live ?xs) = ?A + live (?xs ! i)"
    using sum_list_map_update [OF i, of live L_done] by simp
  have len: "nat (numOfThreads cfg) = length ?xs" using inv by (simp add: budget_inv_def)
  have L1: "1 \<le> numOfThreads cfg" using len i by linarith
  have n: "?n = numOfThreads cfg" using len L1 by linarith
  have fits': "max 0 (numOfThreads cfg * numOfRequests cfg - 1) + ?B * ?n < 2147483648"
    using fits_bound [OF fits L1] n by simp
  have res: "lane_ok cfg l' \<and> 0 \<le> totalRequestCount s'
     \<and> totalRequests s' = totalRequestCount s' + (?P + pending l')
     \<and> totalRequestCount s' + ?B * (?A + live l')
               \<le> max 0 (numOfThreads cfg * numOfRequests cfg - 1) + ?B * ?n
     \<and> (?A + live l' < ?n \<longrightarrow> numOfThreads cfg * numOfRequests cfg \<le> totalRequestCount s')"
  proof (rule lane_step_budget [OF ls ok bounded refl P A _ _ _ _ fits'])
    show "0 \<le> totalRequestCount (globals \<sigma>)" using inv by (simp add: budget_inv_def)
    show "totalRequests (globals \<sigma>) = totalRequestCount (globals \<sigma>) + (?P + pending (?xs ! i))"
      using inv sp by (simp add: budget_inv_def)
    show "totalRequestCount (globals \<sigma>) + ?B * (?A + live (?xs ! i))
            \<le> max 0 (numOfThreads cfg * numOfRequests cfg - 1) + ?B * ?n"
      using inv sl by (simp add: budget_inv_def)
    show "?A + live (?xs ! i) < ?n \<longrightarrow>
            numOfThreads cfg * numOfRequests cfg \<le> totalRequestCount (globals \<sigma>)"
      using inv sl by (simp add: budget_inv_def)
  qed
  have sp': "sum_list (map pending (?xs[i := l'])) = ?P + pending l'"
    using sum_list_map_update [OF i, of pending l'] sp by simp
  have sl': "sum_list (map live (?xs[i := l'])) = ?A + live l'"
    using sum_list_map_update [OF i, of live l'] sl by simp
  have all'': "list_all (lane_ok cfg) (?xs[i := l'])"
    using all res by (intro list_all_update) simp_all
  show ?thesis
    unfolding budget_inv_def \<sigma>' using all'' res sp' sl' inv
    by (simp add: budget_inv_def)
next
  case Spawn
  then show ?thesis using st inv by (simp add: budget_inv_def)
next
  case Minute
  then show ?thesis using st inv by (auto simp: budget_inv_def)
qed

lemma run_budget:
  assumes bounded: "\<not> runIndefinitely cfg"
    and fits: "2 * numOfThreads cfg * max 1 (numOfRequests cfg) < 2147483648"
  shows "budget_inv cfg \<sigma> \<Longrightarrow> run cfg lib es \<sigma> = Some \<sigma>' \<Longrightarrow> budget_inv cfg \<sigma>'"
proof (induction es arbitrary: \<sigma>)
  case Nil
  then show ?case by simp
next
  case (Cons e es)
  from Cons.prems(2) obtain \<sigma>1 where s1: "step cfg lib e \<sigma> = Some \<sigma>1"
    and r: "run cfg lib es \<sigma>1 = Some \<sigma>'"
    by (auto split: option.splits)
  from step_budget [OF Cons.prems(1) s1 bounded fits] have "budget_inv cfg \<sigma>1" .
  then show ?case using r by (rule Cons.IH)
qed

lemma start_budget:
  assumes "\<not> runIndefinitely cfg" and "start cfg = Some \<sigma>"
  shows "budget_inv cfg \<sigma>"
proof -
  have \<sigma>: "\<sigma> = \<lparr>globals = initial_shared,
                 workers = replicate (nat (numOfThreads cfg)) W_check,
                 lanes = replicate (nat (numOfThreads cfg)) L_take,
                 spawning = False\<rparr>"
    using assms by (auto simp: start_def split: if_splits)
  show ?thesis
    unfolding \<sigma> budget_inv_def
    by (simp add: sum_list_replicate initial_shared_def list_all_length)
qed

text \<open>
  C2 as stated fails: with two lanes and one request per lane, three proxies are
  accepted (both validators passed the check of line 155 before the counter reached 2),
  and when every goroutine has returned three requests have been issued, not two.
\<close>

theorem bounded_total_exceeds_budget:
  "Option.bind (start example_config)
     (run example_config example_library (overrun_schedule @ completion_schedule))
     = Some completed_state
   \<and> workers completed_state = [W_done, W_done]
   \<and> lanes completed_state = [L_done, L_done]
   \<and> totalRequests (globals completed_state) = 3
   \<and> totalRequestCount (globals completed_state) = 3
   \<and> bar (globals completed_state) = 3
   \<and> numOfThreads example_config * numOfRequests example_config = 2"
  by (simp add: start_example run_append overrun_reached completion_reached)
     (simp add: completed_state_def example_config_def)

text \<open>
  C2, amended. In bounded mode, as long as twice the budget fits an \<^verbatim>\<open>int32\<close>: once any
  lane has returned, the requests issued by all lanes together are at least
  \<^verbatim>\<open>numOfThreads * numOfRequests\<close>; they can be more, but never more than the budget less
  one plus one batch for every lane (a batch being \<^verbatim>\<open>numOfRequests\<close> requests, and one
  request when \<^verbatim>\<open>numOfRequests\<close> is below 1).
\<close>

theorem bounded_total_at_least:
  assumes "\<not> runIndefinitely cfg"
    and "2 * numOfThreads cfg * max 1 (numOfRequests cfg) < 2147483648"
    and "start cfg = Some \<sigma>0"
    and "run cfg lib es \<sigma>0 = Some \<sigma>"
    and "L_done \<in> set (lanes \<sigma>)"
  shows "numOfThreads cfg * numOfRequests cfg \<le> totalRequestCount (globals \<sigma>)
       \<and> totalRequestCount (globals \<sigma>) \<le> totalRequests (globals \<sigma>)
       \<and> totalRequests (globals \<sigma>)
           \<le> max 0 (numOfThreads cfg * numOfRequests cfg - 1)
              + numOfThreads cfg * max 1 (numOfRequests cfg)"
proof -
  have inv: "budget_inv cfg \<sigma>"
    using run_budget [OF assms(1,2) start_budget [OF assms(1,3)] assms(4)] .
  let ?xs = "lanes \<sigma>"
  have all: "list_all (lane_ok cfg) ?xs" using inv by (simp add: budget_inv_def)
  have "sum_list (map live ?xs) < int (length ?xs)" using assms(5) by (rule done_sum_live)
  then have low: "numOfThreads cfg * numOfRequests cfg \<le> totalRequestCount (globals \<sigma>)"
    using inv by (simp add: budget_inv_def)
  have mid: "totalRequestCount (globals \<sigma>) \<le> totalRequests (globals \<sigma>)"
    using inv sum_pending_nonneg [OF all] by (simp add: budget_inv_def)
  have len: "nat (numOfThreads cfg) = length ?xs" using inv by (simp add: budget_inv_def)
  have "0 < length ?xs" using assms(5) by (cases ?xs) auto
  then have n: "int (length ?xs) = numOfThreads cfg" using len by linarith
  have "totalRequests (globals \<sigma>)
          \<le> totalRequestCount (globals \<sigma>)
             + max 1 (numOfRequests cfg) * sum_list (map live ?xs)"
    using inv sum_pending_le [OF all] by (simp add: budget_inv_def)
  also have "\<dots> \<le> max 0 (numOfThreads cfg * numOfRequests cfg - 1)
                  + max 1 (numOfRequests cfg) * int (length ?xs)"
    using inv by (simp add: budget_inv_def)
  finally have "totalRequests (globals \<sigma>)
          \<le> max 0 (numOfThreads cfg * numOfRequests cfg - 1)
             + numOfThreads cfg * max 1 (numOfRequests cfg)"
    using n by (simp add: mult.commute)
  then show ?thesis using low mid by simp
qed

theorem bounded_total_at_least_witness:
  "\<not> runIndefinitely example_config
   \<and> 2 * numOfThreads example_config * max 1 (numOfRequests example_config) < 2147483648
   \<and> start example_config = Some example_start
   \<and> run example_config example_library (overrun_schedule @ completion_schedule) example_start
       = Some completed_state
   \<and> L_done \<in> set (lanes completed_state)
   \<and> numOfThreads example_config * numOfRequests example_config = 2
   \<and> totalRequestCount (globals completed_state) = 3
   \<and> totalRequests (globals completed_state) = 3
   \<and> max 0 (numOfThreads example_config * numOfRequests example_config - 1)
       + numOfThreads example_config * max 1 (numOfRequests example_config) = 3"
proof -
  have 1: "\<not> runIndefinitely example_config" by (simp add: example_config_def)
  have 2: "2 * numOfThreads example_config * max 1 (numOfRequests example_config) < 2147483648"
    by (simp add: example_config_def)
  have 4: "run example_config example_library (overrun_schedule @ completion_schedule)
             example_start = Some completed_state"
    by (simp add: run_append overrun_reached completion_reached)
  have 5: "L_done \<in> set (lanes completed_state)" by (simp add: completed_state_def)
  from bounded_total_at_least [OF 1 2 start_example 4 5]
  show ?thesis using 1 2 4 5
    by (simp add: start_example) (simp add: completed_state_def example_config_def)
qed

end
